(* ===== verification/Prelude.thy ===== *)
theory Prelude
  imports Main "HOL-Library.AList"
begin

section \<open>Shared vocabulary of the SmallChat model\<close>

text \<open>
  What every component uses: byte strings (a C++ \<open>char\<close> is an 8-bit \<open>char\<close>, a
  \<open>std::string\<close> a list of them), the string operations the sources call
  (\<open>find\<close>, \<open>substr\<close>, stream extraction), the ways a thread of the program can stop
  abnormally, and the association lists that stand for \<open>std::unordered_map\<close>.

  An \<open>unordered_map\<close> is an association list with distinct keys whose order is the
  container's iteration order. The C++ standard leaves that order open; a statement about
  an arbitrary state therefore covers every order the container may have.
\<close>

text \<open>
  How a thread leaves the code other than by returning: an uncaught exception of the
  standard library (\<open>std::out_of_range\<close>, \<open>std::invalid_argument\<close>), a division trap,
  \<open>std::system_error\<close> from a thread that joins itself, a join that waits for a thread
  that is still running, and \<open>std::terminate\<close> from overwriting a joinable thread.
\<close>

datatype abort =
    Out_of_range
  | Invalid_argument
  | Division_by_zero
  | Self_join
  | Join_waits nat
  | Terminate

named_theorems string_ops \<open>evaluation of the string operations on composed strings\<close>
named_theorems handler_defs \<open>definitions of the server's request handlers\<close>

abbreviation newline :: char where "newline \<equiv> CHR 0x0A"
abbreviation field_sep :: char where "field_sep \<equiv> CHR ''|''"
abbreviation colon :: char where "colon \<equiv> CHR '':''"

subsection \<open>std::string\<close>

text \<open>\<open>s.find(c, pos)\<close>: the first index not below \<open>pos\<close> that holds \<open>c\<close>; \<open>npos\<close> is \<open>None\<close>.\<close>

definition find_char :: "char \<Rightarrow> string \<Rightarrow> nat \<Rightarrow> nat option" where
  "find_char c s pos =
     (let n = length (takeWhile (\<lambda>x. x \<noteq> c) (drop pos s))
      in if pos + n < length s then Some (pos + n) else None)"

text \<open>
  \<open>s.substr(pos, n)\<close> and \<open>s.substr(pos)\<close> for a \<open>pos\<close> within the string. The C++ calls
  throw \<open>std::out_of_range\<close> when \<open>pos > s.size()\<close>; every call that is modelled by
  these two has its \<open>pos\<close> from a preceding successful \<open>find\<close> (see \<open>find_char_SomeD\<close>)
  or is 0. The one call whose position is not guarded uses \<open>substr_checked\<close>.
\<close>

definition substr :: "string \<Rightarrow> nat \<Rightarrow> nat \<Rightarrow> string" where
  "substr s pos n = take n (drop pos s)"

definition substr_from :: "string \<Rightarrow> nat \<Rightarrow> string" where
  "substr_from s pos = drop pos s"

definition substr_checked :: "string \<Rightarrow> nat \<Rightarrow> abort + string" where
  "substr_checked s pos = (if length s < pos then Inl Out_of_range else Inr (drop pos s))"

text \<open>\<open>s.find(pat)\<close> for a string \<open>pat\<close>.\<close>

fun find_sub :: "string \<Rightarrow> string \<Rightarrow> nat option" where
  "find_sub pat [] = (if pat = [] then Some 0 else None)"
| "find_sub pat (c # s) =
     (if take (length pat) (c # s) = pat then Some 0 else map_option Suc (find_sub pat s))"

text \<open>
  The step all field parsers of the sources share: find the separator from \<open>pos\<close>, give
  up when there is none, otherwise take the field and move behind the separator.
\<close>

definition next_field :: "char \<Rightarrow> string \<Rightarrow> nat \<Rightarrow> (string \<times> nat) option" where
  "next_field c s pos =
     (case find_char c s pos of
        None \<Rightarrow> None
      | Some e \<Rightarrow> Some (substr s pos (e - pos), e + 1))"

lemma find_char_SomeD:
  assumes "find_char c s pos = Some e"
  shows "pos \<le> e" and "e < length s" and "s ! e = c"
proof -
  let ?n = "length (takeWhile (\<lambda>x. x \<noteq> c) (drop pos s))"
  from assms have e: "e = pos + ?n" and lt: "pos + ?n < length s"
    by (auto simp: find_char_def Let_def split: if_splits)
  from lt have "?n < length (drop pos s)" by simp
  then have "\<not> drop pos s ! ?n \<noteq> c" by (rule nth_length_takeWhile)
  with e lt show "pos \<le> e" and "e < length s" and "s ! e = c" by simp_all
qed

lemma find_char_None_iff: "find_char c s pos = None \<longleftrightarrow> c \<notin> set (drop pos s)"
proof
  assume "find_char c s pos = None"
  then have "length (drop pos s) \<le> length (takeWhile (\<lambda>x. x \<noteq> c) (drop pos s))"
    by (auto simp: find_char_def Let_def split: if_splits)
  with length_takeWhile_le [of "\<lambda>x. x \<noteq> c" "drop pos s"]
  have "takeWhile (\<lambda>x. x \<noteq> c) (drop pos s) = drop pos s"
    by (metis antisym takeWhile_eq_take take_all)
  then show "c \<notin> set (drop pos s)" by (auto dest: set_takeWhileD simp: takeWhile_eq_all_conv)
next
  assume "c \<notin> set (drop pos s)"
  then have all: "takeWhile (\<lambda>x. x \<noteq> c) (drop pos s) = drop pos s"
    by (auto simp: takeWhile_eq_all_conv)
  show "find_char c s pos = None" unfolding find_char_def Let_def all by simp
qed

lemma find_char_absent [simp]: "c \<notin> set s \<Longrightarrow> find_char c s pos = None"
  by (auto simp: find_char_None_iff dest: in_set_dropD)

lemma find_char_append [string_ops]:
  "length pre = pos \<Longrightarrow> c \<notin> set f \<Longrightarrow>
     find_char c (pre @ f @ c # rest) pos = Some (pos + length f)"
  using takeWhile_append2 [of f "\<lambda>x. x \<noteq> c" "c # rest"]
  by (fastforce simp: find_char_def Let_def)

lemma next_field_append [string_ops]:
  "length pre = pos \<Longrightarrow> c \<notin> set f \<Longrightarrow>
     next_field c (pre @ f @ c # rest) pos = Some (f, pos + length f + 1)"
  by (simp add: next_field_def find_char_append substr_def)

lemma next_field_None_iff: "next_field c s pos = None \<longleftrightarrow> c \<notin> set (drop pos s)"
  by (simp add: next_field_def find_char_None_iff split: option.split)
     (metis find_char_None_iff not_None_eq)

lemma next_field_absent [simp]: "c \<notin> set s \<Longrightarrow> next_field c s pos = None"
  by (simp add: next_field_def)

lemma next_field_SomeD:
  "next_field c s pos = Some (f, p) \<Longrightarrow> pos < p \<and> p \<le> length s \<and> f = take (p - 1 - pos) (drop pos s)"
  by (auto simp: next_field_def substr_def split: option.splits dest: find_char_SomeD)

lemma next_field_split:
  "next_field c s pos = Some (f, p) \<longleftrightarrow> c \<notin> set f \<and> p = pos + length f + 1
     \<and> (\<exists>rest. drop pos s = f @ c # rest) \<and> pos < length s"
proof
  assume "next_field c s pos = Some (f, p)"
  then have lt: "pos + length (takeWhile (\<lambda>x. x \<noteq> c) (drop pos s)) < length s"
    and f: "f = take (length (takeWhile (\<lambda>x. x \<noteq> c) (drop pos s))) (drop pos s)"
    and p: "p = pos + length (takeWhile (\<lambda>x. x \<noteq> c) (drop pos s)) + 1"
    by (auto simp: next_field_def find_char_def substr_def Let_def split: if_splits)
  have f': "f = takeWhile (\<lambda>x. x \<noteq> c) (drop pos s)" by (simp add: f takeWhile_eq_take [symmetric])
  have "dropWhile (\<lambda>x. x \<noteq> c) (drop pos s) \<noteq> []"
  proof
    assume "dropWhile (\<lambda>x. x \<noteq> c) (drop pos s) = []"
    then have "takeWhile (\<lambda>x. x \<noteq> c) (drop pos s) = drop pos s"
      by (metis append_Nil2 takeWhile_dropWhile_id)
    with lt show False by simp
  qed
  then obtain x xs where d: "dropWhile (\<lambda>x. x \<noteq> c) (drop pos s) = x # xs" by (cases "dropWhile (\<lambda>x. x \<noteq> c) (drop pos s)") auto
  then have "x = c" using hd_dropWhile [of "\<lambda>x. x \<noteq> c" "drop pos s"] by simp
  with d f' have "drop pos s = f @ c # xs" by (metis takeWhile_dropWhile_id)
  then show "c \<notin> set f \<and> p = pos + length f + 1 \<and> (\<exists>rest. drop pos s = f @ c # rest) \<and> pos < length s"
    using f' p lt by (auto dest: set_takeWhileD)
next
  assume r: "c \<notin> set f \<and> p = pos + length f + 1 \<and> (\<exists>rest. drop pos s = f @ c # rest) \<and> pos < length s"
  then obtain rest where "s = take pos s @ f @ c # rest" by (metis append_take_drop_id)
  moreover have "length (take pos s) = pos" using r by simp
  ultimately show "next_field c s pos = Some (f, p)" using r next_field_append [of "take pos s" pos c f rest] by metis
qed

lemma drop_behind:
  assumes "drop p s = f @ c # r" and "q = p + length f + 1"
  shows "drop q s = r"
proof -
  have "drop q s = drop (length f + 1) (drop p s)" by (simp add: assms(2) add.commute)
  then show ?thesis by (simp add: assms(1))
qed

subsection \<open>Streams of text\<close>

text \<open>
  \<open>std::isspace\<close> in the C locale, and the extractions that \<open>handleCommand\<close> makes from
  its \<open>istringstream\<close>, on what is left of the stream. \<open>iss >> w\<close> skips blanks and takes
  a word; at the end of the stream it fails and leaves \<open>w\<close> empty.
  \<open>std::getline(iss >> std::ws, l)\<close> skips blanks and takes the rest of the line.
\<close>

definition is_space :: "char \<Rightarrow> bool" where
  "is_space c \<longleftrightarrow> c \<in> {CHR '' '', CHR 0x09, CHR 0x0A, CHR 0x0B, CHR 0x0C, CHR 0x0D}"

definition read_word :: "string \<Rightarrow> string \<times> string" where
  "read_word s =
     (let t = dropWhile is_space s
      in (takeWhile (\<lambda>c. \<not> is_space c) t, dropWhile (\<lambda>c. \<not> is_space c) t))"

definition read_line :: "string \<Rightarrow> string" where
  "read_line s = takeWhile (\<lambda>c. c \<noteq> newline) (dropWhile is_space s)"

definition word :: "string \<Rightarrow> bool" where
  "word w \<longleftrightarrow> w \<noteq> [] \<and> (\<forall>c \<in> set w. \<not> is_space c)"

lemma not_space_simps [simp]:
  "is_space (CHR '' '')" "is_space newline" "\<not> is_space (CHR ''/'')"
  by (simp_all add: is_space_def)

lemma wordD [dest]: "word w \<Longrightarrow> w \<noteq> [] \<and> (\<forall>c \<in> set w. \<not> is_space c)"
  by (simp add: word_def)

lemma word_no_newline [simp]: "word w \<Longrightarrow> newline \<notin> set w"
  by (auto simp: word_def)

lemma dropWhile_space_word: "word w \<Longrightarrow> dropWhile is_space (w @ s) = w @ s"
  by (cases w) (auto simp: word_def)

lemma read_word_append [string_ops]:
  "word w \<Longrightarrow> is_space b \<Longrightarrow> read_word (w @ b # s) = (w, b # s)"
  by (simp add: read_word_def dropWhile_space_word word_def)

lemma read_word_end [string_ops]: "word w \<Longrightarrow> read_word w = (w, [])"
  using dropWhile_space_word [of w "[]"]
  by (simp add: read_word_def word_def)

lemma read_word_skip [string_ops]: "is_space b \<Longrightarrow> read_word (b # s) = read_word s"
  by (simp add: read_word_def)

lemma read_word_Nil [simp]: "read_word [] = ([], [])"
  by (simp add: read_word_def)

lemma read_line_Nil [simp]: "read_line [] = []"
  by (simp add: read_line_def)

lemma read_line_skip [string_ops]: "is_space b \<Longrightarrow> read_line (b # s) = read_line s"
  by (simp add: read_line_def)

lemma read_line_text [string_ops]:
  "s \<noteq> [] \<Longrightarrow> \<not> is_space (hd s) \<Longrightarrow> newline \<notin> set s \<Longrightarrow> read_line s = s"
  by (cases s) (auto simp: read_line_def)

text \<open>An argument that is a whole line: it starts with a visible character.\<close>

definition line_text :: "string \<Rightarrow> bool" where
  "line_text s \<longleftrightarrow> s \<noteq> [] \<and> \<not> is_space (hd s) \<and> newline \<notin> set s"

lemma read_two [string_ops]:
  assumes "word w" and "line_text s"
  shows "read_word (CHR '' '' # w @ CHR '' '' # s) = (w, CHR '' '' # s)"
    and "read_line (CHR '' '' # s) = s"
  using assms by (simp_all add: string_ops line_text_def)

lemma fst_read_word: "fst (read_word s) = [] \<or> word (fst (read_word s))"
  by (auto simp: read_word_def word_def Let_def dest: set_takeWhileD)

subsection \<open>Association lists\<close>

declare map_of_eq_Some_iff [simp del] Some_eq_map_of_iff [simp del]

lemmas map_of_update [simp] = AList.update_conv'
lemmas map_of_delete_conv [simp] = AList.delete_conv'

lemma distinct_keys_update [simp]:
  "distinct (map fst al) \<Longrightarrow> distinct (map fst (AList.update k v al))"
  by (rule AList.distinct_update)

lemma distinct_keys_delete [simp]:
  "distinct (map fst al) \<Longrightarrow> distinct (map fst (AList.delete k al))"
  by (rule AList.distinct_delete)

lemma update_absent: "map_of al k = None \<Longrightarrow> AList.update k v al = al @ [(k, v)]"
  by (induction al) (auto split: if_splits)

lemma in_alist_update:
  "distinct (map fst al) \<Longrightarrow>
     (x, y) \<in> set (AList.update k v al) \<longleftrightarrow>
       (x = k \<and> y = v) \<or> (x \<noteq> k \<and> (x, y) \<in> set al)"
  by (metis AList.update_conv' distinct_keys_update fun_upd_apply map_of_eq_Some_iff option.inject)

end
