(* ===== verification/Base64.thy ===== *)
theory Base64
  imports Prelude "HOL-Library.Word"
begin

unbundle bit_operations_syntax

section \<open>Base64 (src/common.cpp)\<close>

text \<open>
  \<open>base64Encode\<close> and \<open>base64Decode\<close>. The C++ loops walk over the characters with a
  counter \<open>i\<close> into a buffer of three (four) \<open>unsigned char\<close>s and flush it when it is
  full; here the buffer is the list of its first \<open>i\<close> bytes and a byte is an
  \<^typ>\<open>8 word\<close>, so that shifts and sums wrap as the assignments to
  \<open>unsigned char\<close> do.
\<close>

type_synonym u8 = "8 word"

definition u8_of_char :: "char \<Rightarrow> u8" where
  "u8_of_char c = of_nat (of_char c)"

definition char_of_u8 :: "u8 \<Rightarrow> char" where
  "char_of_u8 w = char_of (unat w)"

definition base64_chars :: string where
  "base64_chars =
     ''ABCDEFGHIJKLMNOPQRSTUVWXYZ'' @ ''abcdefghijklmnopqrstuvwxyz'' @ ''0123456789+/''"

subsection \<open>Encoding\<close>

text \<open>The four 6-bit values of a full buffer, and the character each one selects.\<close>

fun char_array_4 :: "u8 list \<Rightarrow> u8 list" where
  "char_array_4 [p0, p1, p2] =
     [drop_bit 2 (p0 AND 0xFC),
      push_bit 4 (p0 AND 0x03) + drop_bit 4 (p1 AND 0xF0),
      push_bit 2 (p1 AND 0x0F) + drop_bit 6 (p2 AND 0xC0),
      p2 AND 0x3F]"
| "char_array_4 _ = []"

definition base64_emit :: "u8 list \<Rightarrow> string" where
  "base64_emit ws = map (\<lambda>w. base64_chars ! unat w) ws"

definition encode_step :: "string \<times> u8 list \<Rightarrow> char \<Rightarrow> string \<times> u8 list" where
  "encode_step st c =
     (case st of (result, buf) \<Rightarrow>
        let buf' = buf @ [u8_of_char c]
        in if length buf' = 3 then (result @ base64_emit (char_array_4 buf'), []) else (result, buf'))"

definition encode_tail :: "string \<times> u8 list \<Rightarrow> string" where
  "encode_tail st =
     (case st of (result, buf) \<Rightarrow>
        let i = length buf
        in if 0 < i
           then result @ base64_emit (take (i + 1) (char_array_4 (buf @ replicate (3 - i) 0)))
                  @ replicate (3 - i) CHR ''=''
           else result)"

definition base64Encode :: "string \<Rightarrow> string" where
  "base64Encode input = encode_tail (foldl encode_step ([], []) input)"

subsection \<open>Decoding\<close>

text \<open>
  \<open>base64_chars.find(c)\<close> stored in an \<open>unsigned char\<close>: a character that is not in the
  alphabet gives \<open>npos\<close>, whose low byte is 255.
\<close>

definition base64_index :: "char \<Rightarrow> u8" where
  "base64_index c = (case find_char c base64_chars 0 of None \<Rightarrow> 255 | Some k \<Rightarrow> of_nat k)"

fun char_array_3 :: "u8 list \<Rightarrow> u8 list" where
  "char_array_3 [q0, q1, q2, q3] =
     [push_bit 2 q0 + drop_bit 4 (q1 AND 0x30),
      push_bit 4 (q1 AND 0x0F) + drop_bit 2 (q2 AND 0x3C),
      push_bit 6 (q2 AND 0x03) + q3]"
| "char_array_3 _ = []"

definition decode_step :: "string \<times> u8 list \<Rightarrow> char \<Rightarrow> string \<times> u8 list" where
  "decode_step st c =
     (case st of (result, buf) \<Rightarrow>
        let buf' = buf @ [base64_index c]
        in if length buf' = 4 then (result @ map char_of_u8 (char_array_3 buf'), []) else (result, buf'))"

definition decode_tail :: "string \<times> u8 list \<Rightarrow> string" where
  "decode_tail st =
     (case st of (result, buf) \<Rightarrow>
        let i = length buf
        in if 0 < i
           then result @ map char_of_u8 (take (i - 1) (char_array_3 (buf @ replicate (4 - i) 0)))
           else result)"

text \<open>The loop leaves at the first padding character.\<close>

definition base64Decode :: "string \<Rightarrow> string" where
  "base64Decode input = decode_tail (foldl decode_step ([], []) (takeWhile (\<lambda>c. c \<noteq> CHR ''='') input))"

subsection \<open>Bytes and the alphabet\<close>

lemma char_of_u8_of_char [simp]: "char_of_u8 (u8_of_char c) = c"
  by (simp add: char_of_u8_def u8_of_char_def unat_of_nat)

lemma u8_of_char_of_u8 [simp]: "u8_of_char (char_of_u8 w) = w"
proof -
  have "unat w < 256" using unsigned_less [of w, where ?'a = nat] by simp
  then show ?thesis by (simp add: char_of_u8_def u8_of_char_def)
qed

lemma length_base64_chars [simp]: "length base64_chars = 64"
  by (simp add: base64_chars_def)

lemma base64_chars_facts:
  "list_all (\<lambda>k. base64_index (base64_chars ! k) = of_nat k) [0..<64]"
  by code_simp

lemma base64_index_chars: "k < 64 \<Longrightarrow> base64_index (base64_chars ! k) = of_nat k"
  using base64_chars_facts by (simp add: list_all_iff)

lemma base64_index_emit [simp]: "w < 64 \<Longrightarrow> base64_index (base64_chars ! unat w) = w"
  by (simp add: base64_index_chars word_less_nat_alt)

lemma base64_chars_safe:
  "list_all (\<lambda>c. c \<noteq> CHR ''='' \<and> c \<noteq> field_sep \<and> c \<noteq> newline \<and> c \<noteq> CHR 0x00) base64_chars"
  by code_simp

text \<open>Bytes are compared bit by bit; sums of values without a common bit are unions.\<close>

lemma u8_eqI: "(\<And>n. n \<in> {0, 1, 2, 3, 4, 5, 6, 7} \<Longrightarrow> bit a n = bit b n) \<Longrightarrow> a = b" for a b :: u8
  by (rule bit_word_eqI) (simp add: less_Suc_eq numeral_eq_Suc)

lemmas u8_bit_simps = bit_simps numeral_2_eq_2 [symmetric] numeral_3_eq_3 [symmetric]

lemma sextet1_or:
  "push_bit 4 (p0 AND 0x03) + drop_bit 4 (p1 AND 0xF0) =
   push_bit 4 (p0 AND 0x03) OR drop_bit 4 (p1 AND 0xF0)" for p0 p1 :: u8
  by (rule disjunctive_add_eq_or, rule u8_eqI) (auto simp: u8_bit_simps)

lemma sextet2_or:
  "push_bit 2 (p1 AND 0x0F) + drop_bit 6 (p2 AND 0xC0) =
   push_bit 2 (p1 AND 0x0F) OR drop_bit 6 (p2 AND 0xC0)" for p1 p2 :: u8
  by (rule disjunctive_add_eq_or, rule u8_eqI) (auto simp: u8_bit_simps)

lemma octet0_or:
  "push_bit 2 q0 + drop_bit 4 (q1 AND 0x30) = push_bit 2 q0 OR drop_bit 4 (q1 AND 0x30)" for q0 q1 :: u8
  by (rule disjunctive_add_eq_or, rule u8_eqI) (auto simp: u8_bit_simps)

lemma octet1_or:
  "push_bit 4 (q1 AND 0x0F) + drop_bit 2 (q2 AND 0x3C) =
   push_bit 4 (q1 AND 0x0F) OR drop_bit 2 (q2 AND 0x3C)" for q1 q2 :: u8
  by (rule disjunctive_add_eq_or, rule u8_eqI) (auto simp: u8_bit_simps)

lemma octet2_or:
  "push_bit 6 (q2 AND 0x03) + (p2 AND 0x3F) = push_bit 6 (q2 AND 0x03) OR (p2 AND 0x3F)" for q2 p2 :: u8
  by (rule disjunctive_add_eq_or, rule u8_eqI) (auto simp: u8_bit_simps)

lemmas base64_or = sextet1_or sextet2_or octet0_or octet1_or octet2_or

lemma less_64I: "w AND 0xC0 = 0 \<Longrightarrow> w < 64" for w :: u8
proof -
  assume "w AND 0xC0 = 0"
  then have "bit (w AND 0xC0) 6 = False" and "bit (w AND 0xC0) 7 = False" by simp_all
  then have hi: "\<not> bit w 6" "\<not> bit w 7" by (simp_all add: bit_simps)
  have "w = take_bit 6 w"
    by (rule u8_eqI) (use hi in \<open>auto simp: bit_simps\<close>)
  moreover have "take_bit 6 w < 64"
    using take_bit_nat_less_exp [of 6 "unat w"] by (simp add: word_less_nat_alt unsigned_take_bit_eq)
  ultimately show ?thesis by simp
qed

lemma char_array_4_or:
  "char_array_4 [p0, p1, p2] =
     [drop_bit 2 (p0 AND 0xFC),
      push_bit 4 (p0 AND 0x03) OR drop_bit 4 (p1 AND 0xF0),
      push_bit 2 (p1 AND 0x0F) OR drop_bit 6 (p2 AND 0xC0),
      p2 AND 0x3F]"
  by (simp only: char_array_4.simps base64_or)

lemma char_array_4_less: "w \<in> set (char_array_4 ps) \<Longrightarrow> w < 64"
proof (induction ps rule: char_array_4.induct)
  case (1 p0 p1 p2)
  have "drop_bit 2 (p0 AND 0xFC) AND 0xC0 = 0"
    and "(push_bit 4 (p0 AND 0x03) OR drop_bit 4 (p1 AND 0xF0)) AND 0xC0 = 0"
    and "(push_bit 2 (p1 AND 0x0F) OR drop_bit 6 (p2 AND 0xC0)) AND 0xC0 = 0"
    and "(p2 AND 0x3F) AND 0xC0 = 0"
    by (rule u8_eqI, auto simp: u8_bit_simps)+
  then have "\<forall>w \<in> set (char_array_4 [p0, p1, p2]). w AND 0xC0 = 0"
    unfolding char_array_4_or by (simp only: list.set ball_simps simp_thms)
  with 1 show ?case by (blast intro: less_64I)
qed simp_all

text \<open>A buffer of three bytes survives the regrouping into four values and back.\<close>

lemma char_array_inverse [simp]: "char_array_3 (char_array_4 [p0, p1, p2]) = [p0, p1, p2]"
proof -
  let ?q0 = "drop_bit 2 (p0 AND 0xFC)"
  let ?q1 = "push_bit 4 (p0 AND 0x03) OR drop_bit 4 (p1 AND 0xF0)"
  let ?q2 = "push_bit 2 (p1 AND 0x0F) OR drop_bit 6 (p2 AND 0xC0)"
  have "push_bit 2 ?q0 OR drop_bit 4 (?q1 AND 0x30) = p0"
    and "push_bit 4 (?q1 AND 0x0F) OR drop_bit 2 (?q2 AND 0x3C) = p1"
    and "push_bit 6 (?q2 AND 0x03) OR (p2 AND 0x3F) = p2"
    by (rule u8_eqI, auto simp: u8_bit_simps)+
  then show ?thesis
    unfolding char_array_4_or char_array_3.simps octet0_or octet1_or octet2_or by (simp only:)
qed

lemma length_char_array_4: "length (char_array_4 [p0, p1, p2]) = 4"
  by simp

subsection \<open>The loops, three bytes at a time\<close>

text \<open>
  The encoded text without its padding, as a recursion over groups of three bytes: the
  specification that both loops are measured against.
\<close>

fun sextets :: "string \<Rightarrow> string" where
  "sextets (a # b # c # s) =
     base64_emit (char_array_4 [u8_of_char a, u8_of_char b, u8_of_char c]) @ sextets s"
| "sextets [a, b] = base64_emit (take 3 (char_array_4 [u8_of_char a, u8_of_char b, 0]))"
| "sextets [a] = base64_emit (take 2 (char_array_4 [u8_of_char a, 0, 0]))"
| "sextets [] = []"

lemma replicate_2: "replicate 2 x = [x, x]"
  by (simp add: numeral_2_eq_2)

lemma encode_loop:
  "encode_tail (foldl encode_step (res, []) s) =
     res @ sextets s @ replicate ((3 - length s mod 3) mod 3) CHR ''=''"
  by (induction s arbitrary: res rule: sextets.induct)
     (simp_all add: encode_step_def encode_tail_def numeral_2_eq_2 [symmetric] numeral_3_eq_3 [symmetric] replicate_2 del: char_array_4.simps)

lemma base64Encode_sextets:
  "base64Encode s = sextets s @ replicate ((3 - length s mod 3) mod 3) CHR ''=''"
  by (simp add: base64Encode_def encode_loop)

lemma set_base64_emit:
  assumes "set ws \<subseteq> set (char_array_4 ps)"
  shows "set (base64_emit ws) \<subseteq> set base64_chars"
proof
  fix c assume "c \<in> set (base64_emit ws)"
  then obtain w where "w \<in> set (char_array_4 ps)" and c: "c = base64_chars ! unat w"
    using assms by (auto simp: base64_emit_def)
  then have "unat w < length base64_chars"
    using char_array_4_less [of w ps] by (simp add: word_less_nat_alt)
  with c show "c \<in> set base64_chars" by simp
qed

lemma set_sextets: "set (sextets s) \<subseteq> set base64_chars"
  by (induction s rule: sextets.induct)
     (simp_all add: set_base64_emit [OF order_refl] set_base64_emit [OF set_take_subset]
       del: char_array_4.simps)

lemma sextets_safe:
  "c \<in> set (sextets s) \<Longrightarrow> c \<noteq> CHR ''='' \<and> c \<noteq> field_sep \<and> c \<noteq> newline \<and> c \<noteq> CHR 0x00"
  using set_sextets [of s] base64_chars_safe by (auto simp: list_all_iff)

lemma base64Encode_safe:
  "c \<in> set (base64Encode s) \<Longrightarrow> c \<noteq> field_sep \<and> c \<noteq> newline \<and> c \<noteq> CHR 0x00"
  by (auto simp: base64Encode_sextets dest: sextets_safe)

lemma base64Encode_no_sep [simp]:
  "field_sep \<notin> set (base64Encode s)" "newline \<notin> set (base64Encode s)" "CHR 0x00 \<notin> set (base64Encode s)"
  using base64Encode_safe by blast+

lemma length_base64Encode: "length (base64Encode s) = 4 * ((length s + 2) div 3)"
proof -
  have "length (sextets s) + (3 - length s mod 3) mod 3 = 4 * ((length s + 2) div 3)"
  proof (induction s rule: sextets.induct)
    case (1 a b c s)
    have "(5 + length s) div 3 = Suc ((length s + 2) div 3)" by presburger
    with 1 show ?case by (simp add: base64_emit_def)
  qed (simp_all add: base64_emit_def)
  then show ?thesis by (simp add: base64Encode_sextets)
qed

subsection \<open>Decoding undoes encoding\<close>

lemma decode_group:
  "foldl decode_step (res, []) (base64_emit (char_array_4 [p0, p1, p2]) @ t) =
   foldl decode_step (res @ map char_of_u8 [p0, p1, p2], []) t"
proof -
  obtain q0 q1 q2 q3 where q: "char_array_4 [p0, p1, p2] = [q0, q1, q2, q3]" by simp
  have "q0 < 64" "q1 < 64" "q2 < 64" "q3 < 64"
    by (rule char_array_4_less [of _ "[p0, p1, p2]"], simp only: q, simp)+
  moreover from q have "char_array_3 [q0, q1, q2, q3] = [p0, p1, p2]"
    using char_array_inverse [of p0 p1 p2] by (simp only:)
  ultimately show ?thesis
    unfolding q by (simp add: base64_emit_def decode_step_def del: char_array_3.simps)
qed

lemma decode_last_two:
  "decode_tail (foldl decode_step (res, []) (base64_emit (take 2 (char_array_4 [p0, 0, 0])))) =
   res @ [char_of_u8 p0]"
proof -
  obtain q0 q1 where q: "char_array_4 [p0, 0, 0] = [q0, q1, 0, 0]" by simp
  have "q0 < 64" "q1 < 64"
    by (rule char_array_4_less [of _ "[p0, 0, 0]"], simp only: q, simp)+
  moreover from q have "char_array_3 [q0, q1, 0, 0] = [p0, 0, 0]"
    using char_array_inverse [of p0 0 0] by (simp only:)
  ultimately show ?thesis
    unfolding q
    by (simp add: base64_emit_def decode_step_def decode_tail_def numeral_2_eq_2 del: char_array_3.simps)
qed

lemma decode_last_three:
  "decode_tail (foldl decode_step (res, []) (base64_emit (take 3 (char_array_4 [p0, p1, 0])))) =
   res @ [char_of_u8 p0, char_of_u8 p1]"
proof -
  obtain q0 q1 q2 where q: "char_array_4 [p0, p1, 0] = [q0, q1, q2, 0]" by simp
  have "q0 < 64" "q1 < 64" "q2 < 64"
    by (rule char_array_4_less [of _ "[p0, p1, 0]"], simp only: q, simp)+
  moreover from q have "char_array_3 [q0, q1, q2, 0] = [p0, p1, 0]"
    using char_array_inverse [of p0 p1 0] by (simp only:)
  ultimately show ?thesis
    unfolding q
    by (simp add: base64_emit_def decode_step_def decode_tail_def numeral_2_eq_2 numeral_3_eq_3
        del: char_array_3.simps)
qed

lemma decode_sextets: "decode_tail (foldl decode_step (res, []) (sextets s)) = res @ s"
  by (induction s arbitrary: res rule: sextets.induct)
     (simp_all only: sextets.simps decode_group decode_last_two decode_last_three,
      simp_all add: decode_tail_def)

lemma takeWhile_sextets:
  "takeWhile (\<lambda>c. c \<noteq> CHR ''='') (sextets s @ replicate n CHR ''='') = sextets s"
  using sextets_safe by (subst takeWhile_append2) (auto simp: takeWhile_replicate)

lemma base64_roundtrip [simp]: "base64Decode (base64Encode s) = s"
  by (simp add: base64Decode_def base64Encode_sextets takeWhile_sextets decode_sextets)

subsection \<open>Properties\<close>

text \<open>Base64 transport is lossless and safe inside a line: decoding an encoded string gives
  the string back, the code has four characters per three bytes begun, and no code contains
  the field separator, a line break or a zero byte.\<close>

theorem base64_transport:
  "base64Decode (base64Encode s) = s
     \<and> length (base64Encode s) = 4 * ((length s + 2) div 3)
     \<and> set (base64Encode s) \<inter> {field_sep, newline, CHR 0x00} = {}"
  using base64Encode_safe [of _ s] length_base64Encode [of s] by auto

end
