(* ===== verification/Numbers.thy ===== *)
theory Numbers
  imports Prelude
begin

section \<open>Numbers as text\<close>

text \<open>
  The numeric conversions of the C++ standard library that the sources use: decimal output
  of integers (\<open>operator<<\<close>, \<open>std::to_string\<close>), two-digit lower-case hexadecimal output
  of a byte, and \<open>std::stoi\<close> / \<open>std::stoull\<close> with their two exceptions. The parsers skip
  leading blanks, take an optional sign, read the longest run of digits and ignore what
  follows it, as \<open>strtol\<close> and \<open>strtoull\<close> do.
\<close>

definition digit_char :: "nat \<Rightarrow> char" where
  "digit_char d = ''0123456789abcdef'' ! d"

fun show_nat :: "nat \<Rightarrow> string" where
  "show_nat n = (if n < 10 then [digit_char n] else show_nat (n div 10) @ [digit_char (n mod 10)])"

declare show_nat.simps [simp del]

definition show_int :: "int \<Rightarrow> string" where
  "show_int i = (if i < 0 then CHR ''-'' # show_nat (nat (- i)) else show_nat (nat i))"

text \<open>\<open>ss << std::hex << std::setw(2) << std::setfill('0') << (int)(unsigned char)c\<close>.\<close>

definition hex2 :: "char \<Rightarrow> string" where
  "hex2 c = [digit_char (of_char c div 16), digit_char (of_char c mod 16)]"

definition hex_string :: "string \<Rightarrow> string" where
  "hex_string s = concat (map hex2 s)"

definition digit_val :: "char \<Rightarrow> nat option" where
  "digit_val c =
     (let k = (of_char c :: nat)
      in if 48 \<le> k \<and> k \<le> 57 then Some (k - 48)
         else if 97 \<le> k \<and> k \<le> 122 then Some (k - 87)
         else if 65 \<le> k \<and> k \<le> 90 then Some (k - 55)
         else None)"

definition is_digit :: "nat \<Rightarrow> char \<Rightarrow> bool" where
  "is_digit b c = (case digit_val c of None \<Rightarrow> False | Some d \<Rightarrow> d < b)"

definition digits_value :: "nat \<Rightarrow> string \<Rightarrow> nat" where
  "digits_value b ds = foldl (\<lambda>acc c. acc * b + the (digit_val c)) 0 ds"

text \<open>The sign and, in base 16, the optional prefix \<open>0x\<close> of a hexadecimal digit.\<close>

fun read_sign :: "string \<Rightarrow> bool \<times> string" where
  "read_sign [] = (False, [])"
| "read_sign (c # s) =
     (if c = CHR ''-'' then (True, s) else if c = CHR ''+'' then (False, s) else (False, c # s))"

fun skip_prefix :: "nat \<Rightarrow> string \<Rightarrow> string" where
  "skip_prefix b (z # x # h # s) =
     (if b = 16 \<and> z = CHR ''0'' \<and> (x = CHR ''x'' \<or> x = CHR ''X'') \<and> is_digit 16 h
      then h # s else z # x # h # s)"
| "skip_prefix b s = s"

definition parse_number :: "nat \<Rightarrow> string \<Rightarrow> (bool \<times> nat) option" where
  "parse_number b s =
     (case read_sign (dropWhile is_space s) of
        (neg, t) \<Rightarrow>
          let ds = takeWhile (is_digit b) (skip_prefix b t)
          in if ds = [] then None else Some (neg, digits_value b ds))"

definition stoi :: "nat \<Rightarrow> string \<Rightarrow> abort + int" where
  "stoi b s =
     (case parse_number b s of
        None \<Rightarrow> Inl Invalid_argument
      | Some (neg, n) \<Rightarrow>
          let v = (if neg then - int n else int n)
          in if v < - (2 ^ 31) \<or> 2 ^ 31 - 1 < v then Inl Out_of_range else Inr v)"

definition stoull :: "string \<Rightarrow> abort + nat" where
  "stoull s =
     (case parse_number 10 s of
        None \<Rightarrow> Inl Invalid_argument
      | Some (neg, n) \<Rightarrow>
          if 2 ^ 64 - 1 < n then Inl Out_of_range
          else Inr (if neg then (2 ^ 64 - n) mod 2 ^ 64 else n))"

subsection \<open>Digits\<close>

lemma nat_less_16: "d < (16::nat) \<longleftrightarrow> d \<in> {0, 1, 2, 3, 4, 5, 6, 7, 8, 9, 10, 11, 12, 13, 14, 15}"
  by (simp only: insert_iff empty_iff) presburger

lemma digit_char_props:
  assumes "d < 16"
  shows "digit_val (digit_char d) = Some d" and "\<not> is_space (digit_char d)"
    and "digit_char d \<noteq> CHR ''-''" and "digit_char d \<noteq> CHR ''+''"
    and "digit_char d \<noteq> CHR ''x''" and "digit_char d \<noteq> CHR ''X''"
    and "digit_char d \<noteq> field_sep" and "digit_char d \<noteq> newline" and "digit_char d \<noteq> colon"
  using assms unfolding nat_less_16 by (auto simp: digit_char_def digit_val_def is_space_def)

lemma is_digit_char [simp]: "d < 16 \<Longrightarrow> is_digit b (digit_char d) \<longleftrightarrow> d < b"
  by (simp add: is_digit_def digit_char_props)

lemma digit_char_inj: "d < 16 \<Longrightarrow> e < 16 \<Longrightarrow> digit_char d = digit_char e \<longleftrightarrow> d = e"
  by (metis digit_char_props(1) option.inject)

lemma show_nat_not_Nil [simp]: "show_nat n \<noteq> []"
  by (subst show_nat.simps) simp

lemma show_nat_digits: "c \<in> set (show_nat n) \<Longrightarrow> \<exists>d < 10. c = digit_char d"
proof (induction n rule: show_nat.induct)
  case (1 n)
  show ?case
  proof (cases "n < 10")
    case True
    with "1.prems" show ?thesis by (auto simp: show_nat.simps [of n])
  next
    case False
    with "1.prems" have "c \<in> set (show_nat (n div 10) @ [digit_char (n mod 10)])"
      by (subst (asm) show_nat.simps) simp
    then have "c \<in> set (show_nat (n div 10)) \<or> c = digit_char (n mod 10)" by auto
    with "1.IH" [OF False] show ?thesis by (metis mod_less_divisor zero_less_numeral)
  qed
qed

lemma show_nat_safe:
  "c \<in> set (show_nat n) \<Longrightarrow> c \<noteq> field_sep \<and> c \<noteq> newline \<and> \<not> is_space c \<and> c \<noteq> CHR ''-'' \<and> c \<noteq> CHR ''+''
     \<and> is_digit 10 c"
  by (drule show_nat_digits) (auto simp: digit_char_props)

lemma show_int_safe: "c \<in> set (show_int i) \<Longrightarrow> c \<noteq> field_sep \<and> c \<noteq> newline"
  by (auto simp: show_int_def dest: show_nat_safe split: if_splits)

lemma digit_char_not_nul: "d < 16 \<Longrightarrow> digit_char d \<noteq> CHR 0x00"
  unfolding nat_less_16 by (auto simp: digit_char_def)

lemma show_nat_no_nul [simp]: "CHR 0x00 \<notin> set (show_nat n)"
proof
  assume "CHR 0x00 \<in> set (show_nat n)"
  then obtain d where "d < 10" "CHR 0x00 = digit_char d" using show_nat_digits by blast
  then show False using digit_char_not_nul [of d] by simp
qed

lemma show_int_no_sep [simp]:
  "field_sep \<notin> set (show_int i)" "newline \<notin> set (show_int i)"
  "field_sep \<notin> set (show_nat n)" "newline \<notin> set (show_nat n)"
  using show_int_safe show_nat_safe by blast+

lemma hd_show_nat: "is_digit 10 (hd (show_nat n))" "\<not> is_space (hd (show_nat n))"
    "hd (show_nat n) \<noteq> CHR ''-''" "hd (show_nat n) \<noteq> CHR ''+''"
  using show_nat_safe [of "hd (show_nat n)" n] by simp_all

lemma digits_value_snoc: "digits_value b (ds @ [c]) = digits_value b ds * b + the (digit_val c)"
  by (simp add: digits_value_def)

lemma digits_value_show_nat [simp]: "digits_value 10 (show_nat n) = n"
proof (induction n rule: show_nat.induct)
  case (1 n)
  show ?case
  proof (cases "n < 10")
    case True
    then show ?thesis by (simp add: show_nat.simps [of n] digits_value_def digit_char_props)
  next
    case False
    with "1.IH" [OF False] show ?thesis
      by (simp add: show_nat.simps [of n] digits_value_snoc digit_char_props)
  qed
qed

subsection \<open>Parsing undoes printing\<close>

lemma skip_prefix_10 [simp]: "skip_prefix 10 s = s"
  by (cases "(10 :: nat, s)" rule: skip_prefix.cases) auto

lemma dropWhile_space_hd: "s \<noteq> [] \<Longrightarrow> \<not> is_space (hd s) \<Longrightarrow> dropWhile is_space s = s"
  by (cases s) auto

lemma read_sign_hd:
  "s \<noteq> [] \<Longrightarrow> hd s \<noteq> CHR ''-'' \<Longrightarrow> hd s \<noteq> CHR ''+'' \<Longrightarrow> read_sign s = (False, s)"
  by (cases s) auto

lemma takeWhile_show_nat: "takeWhile (is_digit 10) (show_nat n) = show_nat n"
  using show_nat_safe by simp

lemma parse_show_nat [simp]: "parse_number 10 (show_nat n) = Some (False, n)"
  by (simp add: parse_number_def dropWhile_space_hd hd_show_nat read_sign_hd takeWhile_show_nat)

lemma parse_show_neg [simp]: "parse_number 10 (CHR ''-'' # show_nat n) = Some (True, n)"
proof -
  have "\<not> is_space CHR ''-''" by (simp add: is_space_def)
  then show ?thesis by (simp add: parse_number_def takeWhile_show_nat)
qed

lemma stoi_show_int: "- (2 ^ 31) \<le> i \<Longrightarrow> i < 2 ^ 31 \<Longrightarrow> stoi 10 (show_int i) = Inr i"
  by (cases "i < 0") (auto simp: stoi_def show_int_def Let_def)

lemma stoi_range: "stoi b s = Inr i \<Longrightarrow> - (2 ^ 31) \<le> i \<and> i < 2 ^ 31"
  by (auto simp: stoi_def Let_def split: option.splits prod.splits if_splits)

lemma stoull_show_nat: "n < 2 ^ 64 \<Longrightarrow> stoull (show_nat n) = Inr n"
  by (simp add: stoull_def)

text \<open>Two hexadecimal digits of a byte, as \<open>verifyPassword\<close> reads them back.\<close>

lemma hex2_parse: "stoi 16 (hex2 c) = Inr (of_char c)"
proof -
  let ?k = "of_char c :: nat"
  have k: "?k < 256" "?k mod 16 < 16" by simp_all
  then have k': "?k div 16 < 16" by (simp add: less_mult_imp_div_less)
  have sp: "skip_prefix 16 [digit_char (?k div 16), digit_char (?k mod 16)] =
      [digit_char (?k div 16), digit_char (?k mod 16)]" by simp
  have "digits_value 16 [digit_char (?k div 16), digit_char (?k mod 16)] = ?k"
    using k k' by (simp add: digits_value_def digit_char_props)
  then have "parse_number 16 (hex2 c) = Some (False, ?k)"
    using k k' by (simp add: parse_number_def hex2_def digit_char_props sp)
  moreover from k(1) have "\<not> 2147483647 < ?k" by linarith
  then have "\<not> int ?k < - (2 ^ 31)" and "\<not> 2 ^ 31 - 1 < int ?k"
    by (simp_all del: of_nat_of_char)
  ultimately show ?thesis by (simp only: stoi_def Let_def option.case prod.case if_False simp_thms of_nat_of_char)
qed

lemma length_hex2 [simp]: "length (hex2 c) = 2"
  by (simp add: hex2_def)

lemma hex_string_Nil [simp]: "hex_string [] = []"
  by (simp add: hex_string_def)

lemma hex_string_Cons: "hex_string (c # s) = hex2 c @ hex_string s"
  by (simp add: hex_string_def)

lemma length_hex_string [simp]: "length (hex_string s) = 2 * length s"
  by (induction s) (simp_all add: hex_string_Cons)

lemma hex_string_eq_Nil [simp]: "hex_string s = [] \<longleftrightarrow> s = []" "[] = hex_string s \<longleftrightarrow> s = []"
  by (metis hex_string_Nil length_0_conv length_hex_string mult_eq_0_iff zero_neq_numeral)+

lemma hex2_inj: "hex2 a = hex2 b \<Longrightarrow> a = b"
  by (metis hex2_parse of_char_eq_iff sum.inject(2))

lemma hex_string_inj: "hex_string s = hex_string t \<longleftrightarrow> s = t"
proof (induction s arbitrary: t)
  case Nil
  show ?case by auto
next
  case (Cons a s)
  show ?case
  proof (cases t)
    case Nil
    then show ?thesis by simp
  next
    case (Cons b u)
    then show ?thesis using Cons.IH [of u] by (auto simp: hex_string_Cons append_eq_append_conv dest: hex2_inj)
  qed
qed

lemma hex_string_safe: "c \<in> set (hex_string s) \<Longrightarrow> c \<noteq> colon \<and> c \<noteq> newline \<and> c \<noteq> field_sep"
proof -
  assume "c \<in> set (hex_string s)"
  then obtain a where "c \<in> set (hex2 a)" by (auto simp: hex_string_def)
  moreover have "(of_char a :: nat) div 16 < 16"
    by (rule less_mult_imp_div_less) simp
  moreover have "(of_char a :: nat) mod 16 < 16" by simp
  ultimately show ?thesis by (auto simp: hex2_def digit_char_props)
qed

end
