(* ===== verification/Protocol.thy ===== *)
theory Protocol
  imports Base64 Numbers
begin

section \<open>Messages and their text form (include/common.h, src/common.cpp)\<close>

text \<open>
  \<open>ChatMessage\<close>, its type enumeration, and \<open>ChatProtocol\<close>: one encoder per kind of
  message, the decoder of \<open>MSG\<close> lines and the two readers of the binary header.
\<close>

subsection \<open>ChatMessage\<close>

text \<open>
  \<open>enum class Type\<close> has the underlying type \<open>int\<close>, and \<open>decode\<close> casts whatever integer it
  parsed: a value without a name is a value of the type (\<open>UNNAMED\<close>).
\<close>

datatype (discs_sels) msg_type =
    BROADCAST | PRIVATE | TEXT | SYSTEM | LOGIN | LOGIN_WITH_PASS | REGISTER | LOGOUT
  | ERROR | OK | WELCOME | INFO | USER_LIST | CREATE_ROOM | JOIN_ROOM | LEAVE_ROOM
  | ROOM_LIST | ROOM_MEMBERS | ROOM_MESSAGE | FILE_TRANSFER | FILE_REQUEST | FILE_RESPONSE
  | FILE_DATA | READ_RECEIPT | UNNAMED int

definition named_types :: "msg_type list" where
  "named_types =
     [BROADCAST, PRIVATE, TEXT, SYSTEM, LOGIN, LOGIN_WITH_PASS, REGISTER, LOGOUT,
      ERROR, OK, WELCOME, INFO, USER_LIST, CREATE_ROOM, JOIN_ROOM, LEAVE_ROOM,
      ROOM_LIST, ROOM_MEMBERS, ROOM_MESSAGE, FILE_TRANSFER, FILE_REQUEST, FILE_RESPONSE,
      FILE_DATA, READ_RECEIPT]"

fun int_of_type :: "msg_type \<Rightarrow> int" where
  "int_of_type BROADCAST = 0"
| "int_of_type PRIVATE = 1"
| "int_of_type TEXT = 2"
| "int_of_type SYSTEM = 3"
| "int_of_type LOGIN = 4"
| "int_of_type LOGIN_WITH_PASS = 5"
| "int_of_type REGISTER = 6"
| "int_of_type LOGOUT = 7"
| "int_of_type ERROR = 8"
| "int_of_type OK = 9"
| "int_of_type WELCOME = 10"
| "int_of_type INFO = 11"
| "int_of_type USER_LIST = 12"
| "int_of_type CREATE_ROOM = 13"
| "int_of_type JOIN_ROOM = 14"
| "int_of_type LEAVE_ROOM = 15"
| "int_of_type ROOM_LIST = 16"
| "int_of_type ROOM_MEMBERS = 17"
| "int_of_type ROOM_MESSAGE = 18"
| "int_of_type FILE_TRANSFER = 19"
| "int_of_type FILE_REQUEST = 20"
| "int_of_type FILE_RESPONSE = 21"
| "int_of_type FILE_DATA = 22"
| "int_of_type READ_RECEIPT = 23"
| "int_of_type (UNNAMED i) = i"

text \<open>\<open>static_cast<ChatMessage::Type>(i)\<close>.\<close>

definition type_of_int :: "int \<Rightarrow> msg_type" where
  "type_of_int i = (if 0 \<le> i \<and> i < 24 then named_types ! nat i else UNNAMED i)"

record chat_message =
  sender :: string
  receiver :: string
  content :: string
  timestamp :: int
  msg_password :: string
  file_name :: string
  file_size :: nat
  file_data :: string
  file_offset :: nat
  file_transfer_complete :: bool
  msg_type :: msg_type
  message_id :: string
  read_status :: "(string \<times> bool) list"

text \<open>
  A freshly declared \<open>ChatMessage\<close>: empty strings and map. The members without an
  initialiser (\<open>type\<close>, the sizes and the flag of file transfers) are indeterminate in C++;
  the sources assign \<open>type\<close> before they read it and never read the others.
\<close>

definition new_message :: chat_message where
  "new_message =
     \<lparr>sender = [], receiver = [], content = [], timestamp = 0, msg_password = [],
      file_name = [], file_size = 0, file_data = [], file_offset = 0,
      file_transfer_complete = False, msg_type = BROADCAST, message_id = [], read_status = []\<rparr>"

subsection \<open>Encoders\<close>

definition encode :: "chat_message \<Rightarrow> string" where
  "encode m =
     ''MSG|'' @ sender m @ [field_sep] @ receiver m @ [field_sep]
       @ show_int (int_of_type (msg_type m)) @ [field_sep]
       @ base64Encode (content m) @ [field_sep] @ message_id m @ [newline]"

definition encodeCommand :: "string \<Rightarrow> string" where
  "encodeCommand command = command @ [newline]"

definition encodeSystemMessage :: "string \<Rightarrow> string" where
  "encodeSystemMessage m = ''SYS'' @ [field_sep] @ m @ [newline]"

definition encodeWelcome :: string where
  "encodeWelcome =
     ''WELCOME'' @ [field_sep] @ ''Welcome to SmallChat Server!'' @ [field_sep]
       @ ''Commands: /login <name>, /users, /whisper <name> <msg>, /help, /quit'' @ [newline]"

definition encodeUserList :: "string list \<Rightarrow> string" where
  "encodeUserList us =
     ''USERS'' @ [field_sep] @ show_nat (length us) @ concat (map (\<lambda>u. field_sep # u) us) @ [newline]"

definition encodeError :: "string \<Rightarrow> string" where
  "encodeError e = ''ERROR'' @ [field_sep] @ e @ [newline]"

definition encodeSuccess :: "string \<Rightarrow> string" where
  "encodeSuccess m = ''OK'' @ [field_sep] @ m @ [newline]"

definition encodeLoginWithPass :: "string \<Rightarrow> string \<Rightarrow> string" where
  "encodeLoginWithPass username pass =
     ''LOGIN_WITH_PASS'' @ [field_sep] @ username @ [field_sep] @ pass @ [newline]"

definition encodeRegister :: "string \<Rightarrow> string \<Rightarrow> string" where
  "encodeRegister username pass =
     ''REGISTER'' @ [field_sep] @ username @ [field_sep] @ pass @ [newline]"

definition flag_text :: "bool \<Rightarrow> string" where
  "flag_text b = (if b then ''1'' else ''0'')"

definition encodeCreateRoom :: "string \<Rightarrow> bool \<Rightarrow> string \<Rightarrow> string" where
  "encodeCreateRoom room is_priv pass =
     ''CREATE_ROOM'' @ [field_sep] @ room @ [field_sep] @ flag_text is_priv @ [field_sep] @ pass
       @ [newline]"

definition encodeJoinRoom :: "string \<Rightarrow> string \<Rightarrow> string" where
  "encodeJoinRoom room pass =
     ''JOIN_ROOM'' @ [field_sep] @ room @ [field_sep] @ pass @ [newline]"

definition encodeLeaveRoom :: "string \<Rightarrow> string" where
  "encodeLeaveRoom room = ''LEAVE_ROOM'' @ [field_sep] @ room @ [newline]"

definition encodeRoomList :: "string list \<Rightarrow> string" where
  "encodeRoomList rs =
     ''ROOM_LIST'' @ [field_sep] @ show_nat (length rs) @ [newline]
       @ concat (map (\<lambda>r. r @ [newline]) rs)"

definition encodeRoomMembers :: "string \<Rightarrow> string list \<Rightarrow> string" where
  "encodeRoomMembers room ms =
     ''ROOM_MEMBERS'' @ [field_sep] @ room @ [field_sep] @ show_nat (length ms) @ [newline]
       @ concat (map (\<lambda>m. m @ [newline]) ms)"

definition encodeFileTransfer :: "string \<Rightarrow> string \<Rightarrow> string \<Rightarrow> nat \<Rightarrow> string" where
  "encodeFileTransfer snd_name rcv_name fname fsize =
     ''FILE_TRANSFER'' @ [field_sep] @ snd_name @ [field_sep] @ rcv_name @ [field_sep] @ fname
       @ [field_sep] @ show_nat fsize @ [newline]"

definition encodeFileRequest :: "string \<Rightarrow> string \<Rightarrow> string \<Rightarrow> string" where
  "encodeFileRequest snd_name rcv_name fname =
     ''FILE_REQUEST'' @ [field_sep] @ snd_name @ [field_sep] @ rcv_name @ [field_sep] @ fname
       @ [newline]"

definition encodeFileResponse :: "string \<Rightarrow> string \<Rightarrow> string \<Rightarrow> bool \<Rightarrow> string" where
  "encodeFileResponse snd_name rcv_name fname accepted =
     ''FILE_RESPONSE'' @ [field_sep] @ snd_name @ [field_sep] @ rcv_name @ [field_sep] @ fname
       @ [field_sep] @ flag_text accepted @ [newline]"

definition encodeFileData ::
  "string \<Rightarrow> string \<Rightarrow> string \<Rightarrow> nat \<Rightarrow> string \<Rightarrow> bool \<Rightarrow> string" where
  "encodeFileData snd_name rcv_name fname offset data complete =
     ''FILE_DATA'' @ [field_sep] @ snd_name @ [field_sep] @ rcv_name @ [field_sep] @ fname
       @ [field_sep] @ show_nat offset @ [field_sep] @ base64Encode data
       @ [field_sep] @ flag_text complete @ [newline]"

definition encodeReadReceipt :: "string \<Rightarrow> string \<Rightarrow> string" where
  "encodeReadReceipt mid user =
     ''READ_RECEIPT'' @ [field_sep] @ mid @ [field_sep] @ user @ [newline]"

subsection \<open>Decoders\<close>

text \<open>
  \<open>ChatProtocol::decode\<close> fills the message it is given; every caller passes a fresh one and
  drops it when \<open>false\<close> comes back, so the model returns the filled message or \<open>None\<close>.
  \<open>now\<close> is what the system clock says.
\<close>

definition decode :: "int \<Rightarrow> string \<Rightarrow> chat_message option" where
  "decode now data =
     (if take 3 data \<noteq> ''MSG'' then None
      else if 3 < length data \<and> data ! 3 \<noteq> field_sep then None
      else case next_field field_sep data 4 of
        None \<Rightarrow> None
      | Some (sndr, p1) \<Rightarrow>
        (case next_field field_sep data p1 of
           None \<Rightarrow> None
         | Some (rcvr, p2) \<Rightarrow>
           (case next_field field_sep data p2 of
              None \<Rightarrow> None
            | Some (type_str, p3) \<Rightarrow>
              (case stoi 10 type_str of
                 Inl _ \<Rightarrow> None
               | Inr type_int \<Rightarrow>
                 (case next_field field_sep data p3 of
                    None \<Rightarrow> None
                  | Some (encoded_content, p4) \<Rightarrow>
                      let mid = substr_from data p4
                      in Some (new_message
                           \<lparr>sender := sndr, receiver := rcvr, msg_type := type_of_int type_int,
                            content := base64Decode encoded_content,
                            message_id := (if mid \<noteq> [] \<and> last mid = newline then butlast mid else mid),
                            timestamp := now\<rparr>))))))"

text \<open>
  The header readers: four bytes copied as they are and passed through \<open>ntohl\<close>, that is,
  a big-endian 32-bit number whatever the host's byte order.
\<close>

definition HEADER_SIZE :: nat where
  "HEADER_SIZE = 8"

definition read_be32 :: "string \<Rightarrow> 32 word" where
  "read_be32 bs = foldl (\<lambda>acc c. push_bit 8 acc + ucast (u8_of_char c)) 0 (take 4 bs)"

definition getMessageLength :: "string \<Rightarrow> 32 word" where
  "getMessageLength data = (if length data < HEADER_SIZE then 0 else read_be32 data)"

definition getMessageType :: "string \<Rightarrow> int" where
  "getMessageType data = (if length data < HEADER_SIZE then -1 else sint (read_be32 (drop 4 data)))"

subsection \<open>Types and integers\<close>

lemma int_of_named_type: "k < 24 \<Longrightarrow> int_of_type (named_types ! k) = int k"
proof -
  assume "k < 24"
  moreover have "list_all (\<lambda>k. int_of_type (named_types ! k) = int k) [0..<24]" by code_simp
  ultimately show ?thesis by (simp add: list_all_iff)
qed

lemma int_of_type_of_int [simp]: "int_of_type (type_of_int i) = i"
  using int_of_named_type [of "nat i"] by (auto simp: type_of_int_def)

text \<open>A type that \<open>static_cast\<close> can produce: named, or a number that has no name.\<close>

definition cast_type :: "msg_type \<Rightarrow> bool" where
  "cast_type t \<longleftrightarrow> type_of_int (int_of_type t) = t"

lemma cast_type_of_int [simp]: "cast_type (type_of_int i)"
  by (simp add: cast_type_def)

lemma cast_named_type [simp]: "\<not> is_UNNAMED t \<Longrightarrow> cast_type t"
  by (cases t) (simp_all add: cast_type_def type_of_int_def named_types_def)

lemma named_type_range:
  "\<not> is_UNNAMED t \<Longrightarrow> - (2 ^ 31) \<le> int_of_type t \<and> int_of_type t < 2 ^ 31"
  by (cases t) simp_all

subsection \<open>The MSG line\<close>

text \<open>
  What \<open>encode\<close> needs of a message for its fields to come back: no separator in the two
  names and a type that is an \<open>int\<close>. The content is free, it travels in Base64.
\<close>

definition sendable :: "chat_message \<Rightarrow> bool" where
  "sendable m \<longleftrightarrow>
     field_sep \<notin> set (sender m) \<and> field_sep \<notin> set (receiver m) \<and> cast_type (msg_type m)
     \<and> - (2 ^ 31) \<le> int_of_type (msg_type m) \<and> int_of_type (msg_type m) < 2 ^ 31"

text \<open>What arrives: the five transmitted fields, the receiver's clock, and nothing else.\<close>

definition received :: "int \<Rightarrow> chat_message \<Rightarrow> chat_message" where
  "received now m =
     new_message\<lparr>sender := sender m, receiver := receiver m, msg_type := msg_type m,
       content := content m, message_id := message_id m, timestamp := now\<rparr>"

text \<open>The line with its fields, and the message it stands for.\<close>

definition msg_line :: "string \<Rightarrow> string \<Rightarrow> string \<Rightarrow> string \<Rightarrow> string \<Rightarrow> string" where
  "msg_line sndr rcvr ty b mid =
     ''MSG|'' @ sndr @ [field_sep] @ rcvr @ [field_sep] @ ty @ [field_sep] @ b @ [field_sep] @ mid"

definition line_message :: "int \<Rightarrow> string \<Rightarrow> string \<Rightarrow> int \<Rightarrow> string \<Rightarrow> string \<Rightarrow> chat_message" where
  "line_message now sndr rcvr i b mid =
     new_message\<lparr>sender := sndr, receiver := rcvr, msg_type := type_of_int i, content := base64Decode b,
       message_id := (if mid \<noteq> [] \<and> last mid = newline then butlast mid else mid), timestamp := now\<rparr>"

lemma decode_line:
  assumes seps: "field_sep \<notin> set sndr" "field_sep \<notin> set rcvr" "field_sep \<notin> set ty" "field_sep \<notin> set b"
    and ty: "stoi 10 ty = Inr i"
  shows "decode now (msg_line sndr rcvr ty b mid) = Some (line_message now sndr rcvr i b mid)"
proof -
  let ?d = "msg_line sndr rcvr ty b mid"
  let ?p1 = "4 + length sndr + 1"
  let ?p2 = "?p1 + length rcvr + 1"
  let ?p3 = "?p2 + length ty + 1"
  let ?p4 = "?p3 + length b + 1"
  have 1: "next_field field_sep ?d 4 = Some (sndr, ?p1)"
    using next_field_append [of "''MSG|''" 4 field_sep sndr] seps by (simp add: msg_line_def)
  have 2: "next_field field_sep ?d ?p1 = Some (rcvr, ?p2)"
    using next_field_append [of "''MSG|'' @ sndr @ [field_sep]" ?p1 field_sep rcvr] seps
    by (simp add: msg_line_def)
  have 3: "next_field field_sep ?d ?p2 = Some (ty, ?p3)"
    using next_field_append [of "''MSG|'' @ sndr @ [field_sep] @ rcvr @ [field_sep]" ?p2 field_sep ty] seps
    by (simp add: msg_line_def)
  have 4: "next_field field_sep ?d ?p3 = Some (b, ?p4)"
    using next_field_append [of "''MSG|'' @ sndr @ [field_sep] @ rcvr @ [field_sep] @ ty @ [field_sep]"
        ?p3 field_sep b] seps by (simp add: msg_line_def)
  let ?pre = "''MSG|'' @ sndr @ [field_sep] @ rcvr @ [field_sep] @ ty @ [field_sep] @ b @ [field_sep]"
  have "length ?pre = ?p4" and "?d = ?pre @ mid" by (simp_all add: msg_line_def)
  then have 5: "substr_from ?d ?p4 = mid"
    unfolding substr_from_def by (metis append_eq_conv_conj)
  have "take 3 ?d = ''MSG''" "?d ! 3 = field_sep" by (simp_all add: msg_line_def)
  then show ?thesis
    unfolding decode_def 1 option.case prod.case 2 3 ty sum.case 4 5
    by (simp add: line_message_def Let_def)
qed

lemma decode_SomeE:
  assumes "decode now data = Some m"
  obtains sndr rcvr ty b mid i where "data = msg_line sndr rcvr ty b mid"
    and "field_sep \<notin> set sndr" and "field_sep \<notin> set rcvr" and "field_sep \<notin> set ty" and "field_sep \<notin> set b"
    and "stoi 10 ty = Inr i" and "m = line_message now sndr rcvr i b mid"
proof -
  from assms obtain sndr p1 rcvr p2 ty p3 i b p4 where pre: "take 3 data = ''MSG''"
    "3 < length data \<longrightarrow> data ! 3 = field_sep"
    and f: "next_field field_sep data 4 = Some (sndr, p1)" "next_field field_sep data p1 = Some (rcvr, p2)"
      "next_field field_sep data p2 = Some (ty, p3)" "next_field field_sep data p3 = Some (b, p4)"
    and ty: "stoi 10 ty = Inr i"
    and m: "m = line_message now sndr rcvr i b (substr_from data p4)"
    by (auto simp: decode_def Let_def line_message_def split: if_splits option.splits prod.splits sum.splits)
  obtain r1 where r1: "field_sep \<notin> set sndr" "p1 = 4 + length sndr + 1" "drop 4 data = sndr @ field_sep # r1"
    "4 < length data" using f(1) by (auto simp: next_field_split)
  have d1: "drop p1 data = r1" by (rule drop_behind [OF r1(3) r1(2)])
  obtain r2 where r2: "field_sep \<notin> set rcvr" "p2 = p1 + length rcvr + 1" "r1 = rcvr @ field_sep # r2"
    using f(2) d1 by (auto simp: next_field_split)
  have d2: "drop p2 data = r2" by (rule drop_behind [OF d1 [unfolded r2(3)] r2(2)])
  obtain r3 where r3: "field_sep \<notin> set ty" "p3 = p2 + length ty + 1" "r2 = ty @ field_sep # r3"
    using f(3) d2 by (auto simp: next_field_split)
  have d3: "drop p3 data = r3" by (rule drop_behind [OF d2 [unfolded r3(3)] r3(2)])
  obtain r4 where r4: "field_sep \<notin> set b" "p4 = p3 + length b + 1" "r3 = b @ field_sep # r4"
    using f(4) d3 by (auto simp: next_field_split)
  have d4: "drop p4 data = r4" by (rule drop_behind [OF d3 [unfolded r4(3)] r4(2)])
  have "take 4 data = take 3 data @ [data ! 3]" using r1(4) by (simp add: take_Suc_conv_app_nth numeral_eq_Suc)
  then have "take 4 data = ''MSG|''" using pre r1(4) by simp
  then have "data = msg_line sndr rcvr ty b r4"
    using append_take_drop_id [of 4 data] r1(3) r2(3) r3(3) r4(3) by (simp add: msg_line_def)
  with that r1 r2 r3 r4 ty m d4 show ?thesis by (simp add: substr_from_def)
qed

lemma decode_fields:
  assumes "sendable m"
  shows "decode now (msg_line (sender m) (receiver m) (show_int (int_of_type (msg_type m)))
           (base64Encode (content m)) mid) =
         Some ((received now m)
           \<lparr>message_id := (if mid \<noteq> [] \<and> last mid = newline then butlast mid else mid)\<rparr>)"
  using assms
  by (subst decode_line [where i = "int_of_type (msg_type m)"])
     (auto simp: sendable_def cast_type_def stoi_show_int received_def new_message_def line_message_def)

lemma decode_encode: "sendable m \<Longrightarrow> decode now (encode m) = Some (received now m)"
  using decode_fields [of m now "message_id m @ [newline]"]
  by (simp add: encode_def msg_line_def received_def new_message_def)

text \<open>The same line as the receivers see it, after framing has taken the newline off.\<close>

lemma decode_encode_line:
  assumes "sendable m" and "newline \<notin> set (message_id m)"
  shows "decode now (butlast (encode m)) = Some (received now m)"
proof -
  have "message_id m \<noteq> [] \<Longrightarrow> last (message_id m) \<noteq> newline"
    using assms(2) by (metis last_in_set)
  then show ?thesis
    using decode_fields [OF assms(1), of now "message_id m"]
    by (auto simp: encode_def msg_line_def butlast_append received_def new_message_def)
qed

lemma decode_needs_prefix: "take 3 data \<noteq> ''MSG'' \<Longrightarrow> decode now data = None"
  by (simp add: decode_def)

subsection \<open>Properties\<close>

text \<open>C13: The MSG lines that are accepted: \<open>decode\<close> takes exactly the texts \<open>MSG|s|r|t|b|id\<close> whose
  first four fields are free of separators and whose third is a number in the range of
  \<open>int\<close>, and fills the message from the fields; every other text is refused.\<close>

theorem decode_accepts:
  "decode now data = Some m \<longleftrightarrow>
     (\<exists>sndr rcvr ty b mid i. data = msg_line sndr rcvr ty b mid
        \<and> field_sep \<notin> set sndr \<and> field_sep \<notin> set rcvr \<and> field_sep \<notin> set ty \<and> field_sep \<notin> set b
        \<and> stoi 10 ty = Inr i \<and> m = line_message now sndr rcvr i b mid)"
proof
  assume "decode now data = Some m"
  then show "\<exists>sndr rcvr ty b mid i. data = msg_line sndr rcvr ty b mid
        \<and> field_sep \<notin> set sndr \<and> field_sep \<notin> set rcvr \<and> field_sep \<notin> set ty \<and> field_sep \<notin> set b
        \<and> stoi 10 ty = Inr i \<and> m = line_message now sndr rcvr i b mid"
    by (elim decode_SomeE) (intro exI conjI)
qed (elim exE conjE, hypsubst, rule decode_line)

text \<open>C14: A decoded message is well-formed: its names are free of separators, its type is one the
  cast of an \<open>int\<close> can give, its time is the receiver's, it has no readers yet, and it can be
  passed on: encoded again it is accepted by the next receiver with the same fields.\<close>

theorem decoded_message:
  assumes "decode now data = Some m"
  shows "sendable m \<and> timestamp m = now \<and> read_status m = []
     \<and> decode later (encode m) = Some (received later m) \<and> received now m = m"
proof -
  obtain sndr rcvr ty b mid i where "field_sep \<notin> set sndr" "field_sep \<notin> set rcvr"
    and "stoi 10 ty = Inr i" and m: "m = line_message now sndr rcvr i b mid"
    using assms by (elim decode_SomeE)
  then have "sendable m" using stoi_range [of 10 ty i] by (simp add: sendable_def line_message_def)
  then show ?thesis using decode_encode [of m later]
    by (auto simp: m line_message_def received_def new_message_def)
qed

theorem decoded_message_witness:
  "\<exists>m. decode 5 (msg_line ''ann'' [] ''0'' ''aGk='' ''id'') = Some m \<and> sendable m \<and> timestamp m = 5"
proof -
  have "stoi 10 ''0'' = Inr 0" by code_simp
  then have "decode 5 (msg_line ''ann'' [] ''0'' ''aGk='' ''id'') = Some (line_message 5 ''ann'' [] 0 ''aGk='' ''id'')"
    by (intro decode_line) simp_all
  with decoded_message [OF this] show ?thesis by blast
qed

lemma decode_timestamp: "decode now data = Some m \<Longrightarrow> timestamp m = now \<and> read_status m = []"
  by (auto simp: decode_def new_message_def Let_def split: if_splits option.splits prod.splits sum.splits)

end
