(* ===== verification/Emoji.thy ===== *)
theory Emoji
  imports Prelude "HOL-Library.Multiset"
begin

section \<open>The utilities of src/common.cpp: prefixes, trimming, identifiers, emoji\<close>

text \<open>
  \<open>utils::startsWith\<close>, \<open>utils::trim\<close>, \<open>utils::generateRandomId\<close>,
  \<open>utils::replaceEmojis\<close> and \<open>utils::getAvailableEmojis\<close>. The emoji table is an
  \<open>unordered_map\<close>, so the order in which \<open>replaceEmojis\<close> applies its entries is open:
  it is a parameter here, and \<open>replaceEmojis_perm\<close> shows that it does not matter.
\<close>

definition startsWith :: "string \<Rightarrow> string \<Rightarrow> bool" where
  "startsWith str pre \<longleftrightarrow> length pre \<le> length str \<and> take (length pre) str = pre"

definition is_trimmed_char :: "char \<Rightarrow> bool" where
  "is_trimmed_char c \<longleftrightarrow> c \<in> {CHR '' '', CHR 0x09, CHR 0x0A, CHR 0x0D}"

definition trim :: "string \<Rightarrow> string" where
  "trim str =
     (let start = length (takeWhile is_trimmed_char str)
      in if start = length str then []
         else let end = length str - 1 - length (takeWhile is_trimmed_char (rev str))
              in substr str start (end - start + 1))"

definition id_charset :: string where
  "id_charset =
     ''abcdefghijklmnopqrstuvwxyzABCDEFGHIJKLMNOPQRSTUVWXYZ0123456789''"

text \<open>\<open>draw i\<close> is the \<open>i\<close>-th value of the distribution over the indices of the charset.\<close>

definition generateRandomId :: "(nat \<Rightarrow> nat) \<Rightarrow> nat \<Rightarrow> string" where
  "generateRandomId draw len = map (\<lambda>i. id_charset ! draw i) [0..<len]"

text \<open>The initialiser list of the table; a key that is already present is not inserted again.\<close>

definition emoji_init :: "(string \<times> string) list" where
  "emoji_init =
     [
      ('':)'', [CHR 0xF0, CHR 0x9F, CHR 0x98, CHR 0x8A]),
      ('':('', [CHR 0xF0, CHR 0x9F, CHR 0x98, CHR 0xA2]),
      ('':D'', [CHR 0xF0, CHR 0x9F, CHR 0x98, CHR 0x84]),
      ('';)'', [CHR 0xF0, CHR 0x9F, CHR 0x98, CHR 0x89]),
      ('':P'', [CHR 0xF0, CHR 0x9F, CHR 0x98, CHR 0x9B]),
      ('':O'', [CHR 0xF0, CHR 0x9F, CHR 0x98, CHR 0xAE]),
      ('':S'', [CHR 0xF0, CHR 0x9F, CHR 0x98, CHR 0x95]),
      ('':|'', [CHR 0xF0, CHR 0x9F, CHR 0x98, CHR 0x90]),
      ('':-)'', [CHR 0xF0, CHR 0x9F, CHR 0x98, CHR 0x8A]),
      ('':-('', [CHR 0xF0, CHR 0x9F, CHR 0x98, CHR 0xA2]),
      ('':-D'', [CHR 0xF0, CHR 0x9F, CHR 0x98, CHR 0x84]),
      ('':-)'', [CHR 0xF0, CHR 0x9F, CHR 0x98, CHR 0x89]),
      ('':-P'', [CHR 0xF0, CHR 0x9F, CHR 0x98, CHR 0x9B]),
      ('':-O'', [CHR 0xF0, CHR 0x9F, CHR 0x98, CHR 0xAE]),
      ('':-S'', [CHR 0xF0, CHR 0x9F, CHR 0x98, CHR 0x95]),
      ('':-|'', [CHR 0xF0, CHR 0x9F, CHR 0x98, CHR 0x90]),
      (''<3'', [CHR 0xE2, CHR 0x9D, CHR 0xA4, CHR 0xEF, CHR 0xB8, CHR 0x8F]),
      ([CHR ''<'', CHR 0x5C, CHR ''3''], [CHR 0xF0, CHR 0x9F, CHR 0x92, CHR 0x94]),
      ('':-*'', [CHR 0xF0, CHR 0x9F, CHR 0x98, CHR 0x98]),
      ('':*'', [CHR 0xF0, CHR 0x9F, CHR 0x98, CHR 0x98]),
      (''B)'', [CHR 0xF0, CHR 0x9F, CHR 0x98, CHR 0x8E]),
      (''B-)'', [CHR 0xF0, CHR 0x9F, CHR 0x98, CHR 0x8E])]"

definition emoji_map :: "(string \<times> string) list" where
  "emoji_map = foldl (\<lambda>m (k, v). if map_of m k = None then m @ [(k, v)] else m) [] emoji_init"

definition getAvailableEmojis :: "(string \<times> string) list \<Rightarrow> string list" where
  "getAvailableEmojis order = map fst order"

lemma find_sub_SomeD: "find_sub pat s = Some k \<Longrightarrow> take (length pat) (drop k s) = pat"
  by (induction s arbitrary: k) (auto split: if_splits)

lemma find_sub_bound: "find_sub pat s = Some k \<Longrightarrow> k + length pat \<le> length s"
  using find_sub_SomeD [of pat s k]
  by (induction s arbitrary: k) (auto split: if_splits dest: arg_cong [where f = length])

text \<open>
  The inner loop of \<open>replaceEmojis\<close> for one entry: find the code from \<open>pos\<close>, splice the
  emoji in, go on behind it. The table has no empty code (an empty one would make the C++
  loop run for ever; the model stops there).
\<close>

function replace_code :: "string \<Rightarrow> string \<Rightarrow> string \<Rightarrow> nat \<Rightarrow> string" where
  "replace_code code emoji result pos =
     (if code = [] then result
      else case find_sub code (drop pos result) of
             None \<Rightarrow> result
           | Some k \<Rightarrow>
               let p = pos + k
               in replace_code code emoji
                    (take p result @ emoji @ drop (p + length code) result) (p + length emoji))"
  by pat_completeness auto

termination
proof (relation "measure (\<lambda>(code, emoji, result, pos). length result - pos)", simp)
  fix code emoji result pos k p
  assume c: "code \<noteq> []" and f: "find_sub code (drop pos result) = Some k" and p: "p = pos + k"
  from c obtain n where "length code = Suc n" by (cases code) auto
  with find_sub_bound [OF f] p
  show "((code, emoji, take p result @ emoji @ drop (p + length code) result, p + length emoji),
         (code, emoji, result, pos))
        \<in> measure (\<lambda>(code, emoji, result, pos). length result - pos)"
    by auto
qed

declare replace_code.simps [simp del]

definition replaceEmojis :: "(string \<times> string) list \<Rightarrow> string \<Rightarrow> string" where
  "replaceEmojis order text = foldl (\<lambda>result (code, emoji). replace_code code emoji result 0) text order"

subsection \<open>One pass and all passes as a left-to-right scan\<close>

text \<open>
  The specification: walk over the text once and replace, at each position, the entry whose
  code starts there.
\<close>

definition match_at :: "(string \<times> string) list \<Rightarrow> string \<Rightarrow> (string \<times> string) option" where
  "match_at T s = find (\<lambda>(k, e). k \<noteq> [] \<and> take (length k) s = k) T"

lemma match_at_SomeD:
  "match_at T s = Some (k, e) \<Longrightarrow> (k, e) \<in> set T \<and> k \<noteq> [] \<and> take (length k) s = k"
  unfolding match_at_def find_Some_iff by (auto, metis nth_mem)

lemma match_at_None_iff:
  "match_at T s = None \<longleftrightarrow> (\<forall>(k, e) \<in> set T. k \<noteq> [] \<longrightarrow> take (length k) s \<noteq> k)"
  by (auto simp: match_at_def find_None_iff)

function scan :: "(string \<times> string) list \<Rightarrow> string \<Rightarrow> string" where
  "scan T [] = []"
| "scan T (c # s) =
     (case match_at T (c # s) of
        None \<Rightarrow> c # scan T s
      | Some (k, e) \<Rightarrow> e @ scan T (drop (length k) (c # s)))"
  by pat_completeness auto

termination
proof (relation "measure (\<lambda>(T, s). length s)", simp, simp)
  fix T c s x k e
  assume "match_at T (c # s) = Some x" and "(k, e) = x"
  then have "k \<noteq> []" using match_at_SomeD by blast
  then obtain n where "length k = Suc n" by (cases k) auto
  then show "((T, drop (length k) (c # s)), T, c # s) \<in> measure (\<lambda>(T, s). length s)" by simp
qed

lemma scan_none: "(\<And>i. match_at T (drop i s) = None) \<Longrightarrow> scan T s = s"
proof (induction s)
  case (Cons c s)
  have "match_at T (drop i s) = None" for i using Cons.prems [of "Suc i"] by simp
  with Cons.IH Cons.prems [of 0] show ?case by simp
qed simp

lemma find_sub_scan:
  assumes "code \<noteq> []"
  shows "scan [(code, e)] s =
    (case find_sub code s of
       None \<Rightarrow> s
     | Some k \<Rightarrow> take k s @ e @ scan [(code, e)] (drop (k + length code) s))"
proof (induction s)
  case Nil
  with assms show ?case by simp
next
  case (Cons c s)
  show ?case
  proof (cases "take (length code) (c # s) = code")
    case True
    with assms have "match_at [(code, e)] (c # s) = Some (code, e)" by (simp add: match_at_def)
    with True show ?thesis by simp
  next
    case False
    then have "match_at [(code, e)] (c # s) = None" by (simp add: match_at_def)
    with False Cons.IH show ?thesis by (simp split: option.splits)
  qed
qed

text \<open>The C++ loop computes the scan with a single entry.\<close>

lemma replace_code_scan:
  assumes "code \<noteq> []" and "pos \<le> length result"
  shows "replace_code code e result pos = take pos result @ scan [(code, e)] (drop pos result)"
  using assms
proof (induction code e result pos rule: replace_code.induct)
  case (1 code e result pos)
  show ?case
  proof (cases "find_sub code (drop pos result)")
    case None
    with "1.prems" show ?thesis
      by (simp add: replace_code.simps [of code e result pos] find_sub_scan)
  next
    case (Some k)
    have le: "pos + k + length code \<le> length result"
      using find_sub_bound [OF Some] "1.prems" by simp
    let ?r = "take (pos + k) result @ e @ drop (pos + k + length code) result"
    have "replace_code code e result pos = replace_code code e ?r (pos + k + length e)"
      using Some "1.prems" by (simp add: replace_code.simps [of code e result pos] Let_def)
    also have "\<dots> = take (pos + k + length e) ?r @ scan [(code, e)] (drop (pos + k + length e) ?r)"
      using "1.IH" [OF \<open>code \<noteq> []\<close> Some refl] "1.prems" le by simp
    also have "\<dots> = take (pos + k) result @ e @ scan [(code, e)] (drop (pos + k + length code) result)"
      using le by simp
    also have "drop (pos + k + length code) result = drop (k + length code) (drop pos result)"
      by (simp add: add.commute add.left_commute)
    also have "take (pos + k) result @ e @ scan [(code, e)] \<dots> =
        take pos result @ scan [(code, e)] (drop pos result)"
      using find_sub_scan [OF \<open>code \<noteq> []\<close>, of e "drop pos result"] Some by (simp add: take_add)
    finally show ?thesis .
  qed
qed

subsection \<open>Tables whose codes cannot interfere\<close>

text \<open>
  Two strings clash when one is a prefix of the other. In a good table no code clashes with
  another one, none clashes with a proper suffix of a code (so two occurrences never
  overlap), and no replacement contains a character of a code.
\<close>

definition clash :: "string \<Rightarrow> string \<Rightarrow> bool" where
  "clash a b \<longleftrightarrow> take (min (length a) (length b)) a = take (min (length a) (length b)) b"

fun good_pair :: "string \<times> string \<Rightarrow> string \<times> string \<Rightarrow> bool" where
  "good_pair (k, e) (k', e') \<longleftrightarrow>
     (k = k' \<or> \<not> clash k k') \<and> list_all (\<lambda>j. \<not> clash (drop j k) k') [1..<length k]
     \<and> list_all (\<lambda>c. c \<notin> set k') e"

definition good_table :: "(string \<times> string) list \<Rightarrow> bool" where
  "good_table T \<longleftrightarrow>
     distinct (map fst T)
     \<and> list_all (\<lambda>x. fst x \<noteq> [] \<and> snd x \<noteq> [] \<and> list_all (good_pair x) T) T"

lemma good_tableD:
  assumes "good_table T" and "(k, e) \<in> set T"
  shows "k \<noteq> []" and "e \<noteq> []"
    and "(k', e') \<in> set T \<Longrightarrow> k \<noteq> k' \<Longrightarrow> \<not> clash k k'"
    and "(k', e') \<in> set T \<Longrightarrow> 0 < j \<Longrightarrow> j < length k \<Longrightarrow> \<not> clash (drop j k) k'"
    and "(k', e') \<in> set T \<Longrightarrow> set e \<inter> set k' = {}"
    and "(k, e') \<in> set T \<Longrightarrow> e' = e"
proof -
  have ok: "k \<noteq> []" "e \<noteq> []" "\<And>x. x \<in> set T \<Longrightarrow> good_pair (k, e) x" "distinct (map fst T)"
    using assms by (auto simp: good_table_def list_all_iff)
  show "k \<noteq> []" "e \<noteq> []" by fact+
  show "\<not> clash k k'" if "(k', e') \<in> set T" "k \<noteq> k'" using ok(3) [OF that(1)] that(2) by simp
  show "\<not> clash (drop j k) k'" if "(k', e') \<in> set T" "0 < j" "j < length k"
    using ok(3) [OF that(1)] that by (auto simp: list_all_iff)
  show "set e \<inter> set k' = {}" if "(k', e') \<in> set T" using ok(3) [OF that] by (auto simp: list_all_iff)
  show "e' = e" if "(k, e') \<in> set T" using ok(4) that assms(2) by (metis map_of_eq_Some_iff option.inject)
qed

lemma good_table_tl: "good_table (x # T) \<Longrightarrow> good_table T"
  by (auto simp: good_table_def list_all_iff)

lemma clash_prefixes:
  "take (length a) s = a \<Longrightarrow> take (length b) s = b \<Longrightarrow> clash a b"
proof -
  assume a: "take (length a) s = a" and b: "take (length b) s = b"
  let ?m = "min (length a) (length b)"
  have "take ?m a = take ?m s" using arg_cong [OF a, of "take ?m"] by (simp add: min.absorb1)
  moreover have "take ?m b = take ?m s" using arg_cong [OF b, of "take ?m"] by (simp add: min.absorb1)
  ultimately show "clash a b" by (simp add: clash_def)
qed

lemma clash_append: "take (length k) (u @ r) = k \<Longrightarrow> clash u k"
  by (rule clash_prefixes [of _ "u @ r"]) simp_all

lemma match_at_iff:
  assumes "good_table T"
  shows "match_at T s = Some (k, e) \<longleftrightarrow> (k, e) \<in> set T \<and> take (length k) s = k"
proof
  assume "match_at T s = Some (k, e)"
  then show "(k, e) \<in> set T \<and> take (length k) s = k" by (auto dest: match_at_SomeD)
next
  assume k: "(k, e) \<in> set T \<and> take (length k) s = k"
  then have "\<not> (\<forall>(k, e) \<in> set T. k \<noteq> [] \<longrightarrow> take (length k) s \<noteq> k)"
    using good_tableD(1) [OF assms] by fast
  then obtain k' e' where m: "match_at T s = Some (k', e')"
    unfolding match_at_None_iff [symmetric] by auto
  with k have "clash k k'" and "(k', e') \<in> set T" by (auto dest: match_at_SomeD intro: clash_prefixes)
  with k m good_tableD(3,6) [OF assms] show "match_at T s = Some (k, e)" by metis
qed

lemma scan_cong:
  assumes "\<And>u. match_at T u = match_at T' u"
  shows "scan T s = scan T' s"
proof (induction s rule: length_induct)
  case (1 s)
  show ?case
  proof (cases s)
    case (Cons c t)
    show ?thesis
    proof (cases "match_at T' (c # t)")
      case None
      with 1 Cons assms show ?thesis by simp
    next
      case (Some ke)
      then obtain k e where ke: "match_at T' (c # t) = Some (k, e)" by (cases ke) simp
      then have "k \<noteq> []" using match_at_SomeD by blast
      then have "length (drop (length k) (c # t)) < length s" using Cons by (cases k) simp_all
      with 1 ke Cons assms show ?thesis by simp
    qed
  qed simp
qed

lemma scan_cong_set:
  assumes "good_table T" and "good_table T'" and "set T = set T'"
  shows "scan T s = scan T' s"
proof -
  have m: "match_at T u = match_at T' u" for u
    using match_at_iff [OF assms(1), of u] match_at_iff [OF assms(2), of u] assms(3)
    by (metis (no_types, lifting) not_Some_eq surj_pair)
  then show ?thesis by (rule scan_cong)
qed

lemma scan_skip:
  "(\<And>j. j < length u \<Longrightarrow> \<not> clash (drop j u) k) \<Longrightarrow>
     scan [(k, e)] (u @ r) = u @ scan [(k, e)] r"
proof (induction u)
  case (Cons c u)
  have "\<not> clash (drop j u) k" if "j < length u" for j using Cons.prems [of "Suc j"] that by simp
  moreover have "match_at [(k, e)] (c # u @ r) = None"
    using Cons.prems [of 0] clash_append [of k "c # u" r] by (auto simp: match_at_None_iff)
  ultimately show ?case using Cons.IH by simp
qed simp

lemma scan_prefix_back:
  assumes "\<And>k e. (k, e) \<in> set T \<Longrightarrow> e \<noteq> [] \<and> set e \<inter> set p = {}"
    and "take (length p) (scan T s) = p"
  shows "take (length p) s = p"
  using assms
proof (induction T s arbitrary: p rule: scan.induct)
  case (1 T)
  then show ?case by simp
next
  case (2 T c s)
  show ?case
  proof (cases p)
    case Nil
    then show ?thesis by simp
  next
    case p: (Cons x q)
    show ?thesis
    proof (cases "match_at T (c # s)")
      case None
      with "2.prems" p have "x = c" and "take (length q) (scan T s) = q" by simp_all
      moreover have "e \<noteq> [] \<and> set e \<inter> set q = {}" if "(k, e) \<in> set T" for k e
        using "2.prems"(1) [OF that] p by auto
      ultimately show ?thesis using "2.IH"(1) [OF None, of q] p by simp
    next
      case (Some ke)
      then obtain k e where ke: "match_at T (c # s) = Some (k, e)" by (cases ke) simp
      then have "e \<noteq> []" "set e \<inter> set p = {}"
        using match_at_SomeD "2.prems"(1) by blast+
      moreover have "take (length p) (e @ scan T (drop (length k) (c # s))) = p"
        using "2.prems"(2) ke by simp
      ultimately show ?thesis using p by (cases e) auto
    qed
  qed
qed

lemma match_at_foreign: "(\<And>k' e'. (k', e') \<in> set T \<Longrightarrow> x \<notin> set k') \<Longrightarrow> match_at T (x # w) = None"
  unfolding match_at_None_iff by (force simp: neq_Nil_conv)

lemma scan_emoji:
  assumes "\<And>k e'. (k, e') \<in> set T \<Longrightarrow> k \<noteq> [] \<and> set e \<inter> set k = {}"
  shows "scan T (e @ s) = e @ scan T s"
  using assms
proof (induction e)
  case (Cons c e)
  have "match_at T (c # e @ s) = None"
    by (rule match_at_foreign) (use Cons.prems in fastforce)
  moreover have "scan T (e @ s) = e @ scan T s" by (rule Cons.IH) (use Cons.prems in fastforce)
  ultimately show ?case by simp
qed simp

subsection \<open>The passes of a good table compose to one scan\<close>

lemma match_at_skip:
  assumes good: "good_table ((k, e) # T)" and m: "match_at T s = Some (k', e')"
  shows "scan [(k, e)] s = k' @ scan [(k, e)] (drop (length k') s)"
proof -
  note g = good_tableD [OF good]
  from m have k': "(k', e') \<in> set T" "k' \<noteq> []" "take (length k') s = k'"
    by (auto dest: match_at_SomeD)
  have "k \<notin> fst ` set T" using good by (simp add: good_table_def)
  with k'(1) have "k \<noteq> k'" by force
  have "\<not> clash (drop j k') k" if "j < length k'" for j
    using g(3) [of k' e' k e] g(4) [of k' e' k e j] k'(1) \<open>k \<noteq> k'\<close> that by (cases j) simp_all
  then have "scan [(k, e)] (k' @ drop (length k') s) = k' @ scan [(k, e)] (drop (length k') s)"
    by (rule scan_skip)
  moreover have "k' @ drop (length k') s = s" using k'(3) by (metis append_take_drop_id)
  ultimately show ?thesis by simp
qed

lemma match_at_scan:
  assumes good: "good_table ((k, e) # T)"
  shows "match_at T (scan [(k, e)] s) = (if take (length k) s = k then None else match_at T s)"
proof (cases "take (length k) s = k")
  case True
  note g = good_tableD [OF good]
  have "k \<noteq> []" "e \<noteq> []" using g(1,2) by auto
  then obtain x e1 where "e = x # e1" by (cases e) auto
  moreover have "scan [(k, e)] s = e @ scan [(k, e)] (drop (length k) s)"
    using True \<open>k \<noteq> []\<close> by (cases s) (auto simp: match_at_def)
  moreover have "x \<notin> set k'" if "(k', e') \<in> set T" for k' e'
    using g(5) [of k e k' e'] that \<open>e = x # e1\<close> by auto
  ultimately have "match_at T (scan [(k, e)] s) = None"
    using match_at_foreign [of T x] by (metis append_Cons)
  with True show ?thesis by simp
next
  case False
  note g = good_tableD [OF good] and gT = good_table_tl [OF good]
  have iff: "match_at T (scan [(k, e)] s) = Some (k', e') \<longleftrightarrow> match_at T s = Some (k', e')" for k' e'
  proof
    assume "match_at T (scan [(k, e)] s) = Some (k', e')"
    then have k': "(k', e') \<in> set T" "take (length k') (scan [(k, e)] s) = k'"
      by (auto dest: match_at_SomeD)
    have "take (length k') s = k'"
      by (rule scan_prefix_back [of "[(k, e)]" _ s]) (use g(2) [of k e] g(5) [of k e k' e'] k' in auto)
    with k' show "match_at T s = Some (k', e')" by (simp add: match_at_iff [OF gT])
  next
    assume m: "match_at T s = Some (k', e')"
    then have "take (length k') (scan [(k, e)] s) = k'" by (simp add: match_at_skip [OF good m])
    with m show "match_at T (scan [(k, e)] s) = Some (k', e')" by (simp add: match_at_iff [OF gT])
  qed
  have "match_at T (scan [(k, e)] s) = match_at T s"
    using iff by (metis not_Some_eq surj_pair)
  with False show ?thesis by simp
qed

text \<open>The step of the composition where the first code matches.\<close>

lemma scan_compose_match:
  assumes "good_table ((k, e) # T)" and "take (length k) s = k" and "s \<noteq> []"
    and "scan T (scan [(k, e)] (drop (length k) s)) = scan ((k, e) # T) (drop (length k) s)"
  shows "scan T (scan [(k, e)] s) = scan ((k, e) # T) s"
proof -
  note g = good_tableD [OF assms(1)]
  have "k \<noteq> []" using g(1) by auto
  have "k' \<noteq> [] \<and> set e \<inter> set k' = {}" if "(k', e') \<in> set T" for k' e'
    using g(1) [of k' e'] g(5) [of k e k' e'] that by simp
  then have "scan T (e @ scan [(k, e)] (drop (length k) s)) = e @ scan T (scan [(k, e)] (drop (length k) s))"
    by (rule scan_emoji)
  with assms(2-4) \<open>k \<noteq> []\<close> show ?thesis by (cases s) (simp_all add: match_at_def)
qed

lemma scan_compose:
  assumes good: "good_table ((k, e) # T)"
  shows "scan T (scan [(k, e)] s) = scan ((k, e) # T) s"
proof (induction s rule: length_induct)
  case (1 s)
  note g = good_tableD [OF good]
  have "k \<noteq> []" using g(1) by auto
  show ?case
  proof (cases s)
    case s: (Cons c t)
    show ?thesis
    proof (cases "take (length k) s = k")
      case True
      have "length (drop (length k) s) < length s" using s \<open>k \<noteq> []\<close> by (cases k) simp_all
      then have IH: "scan T (scan [(k, e)] (drop (length k) s)) = scan ((k, e) # T) (drop (length k) s)"
        using 1 by blast
      then show ?thesis using scan_compose_match [OF good True] s by simp
    next
      case False
      have nk: "match_at [(k, e)] s = None" using False by (simp add: match_at_def)
      have same: "match_at ((k, e) # T) s = match_at T s" using False by (simp add: match_at_def)
      have step: "match_at T (scan [(k, e)] s) = match_at T s" using match_at_scan [OF good] False by simp
      show ?thesis
      proof (cases "match_at T s")
        case None
        then show ?thesis using 1 s nk same step by simp
      next
        case (Some ke)
        then obtain k' e' where m: "match_at T s = Some (k', e')" by (cases ke) simp
        have "length (drop (length k') s) < length s"
          using s match_at_SomeD [OF m] by (cases k') simp_all
        then have IH: "scan T (scan [(k, e)] (drop (length k') s)) = scan ((k, e) # T) (drop (length k') s)"
          using 1 by blast
        obtain u where u: "scan [(k, e)] s = c # u" using s nk by simp
        have "drop (length k') (c # u) = scan [(k, e)] (drop (length k') s)"
          using match_at_skip [OF good m] u by simp
        with IH m same step s u show ?thesis by simp
      qed
    qed
  qed simp
qed

lemma scan_Nil_table [simp]: "scan [] s = s"
  by (rule scan_none) (simp add: match_at_def)

lemma replaceEmojis_scan: "good_table order \<Longrightarrow> replaceEmojis order s = scan order s"
proof (induction order arbitrary: s)
  case Nil
  then show ?case by (simp add: replaceEmojis_def)
next
  case (Cons x order)
  obtain k e where x: "x = (k, e)" by (cases x)
  have "k \<noteq> []" using good_tableD(1) [OF Cons.prems] x by auto
  then have "replace_code k e s 0 = scan [(k, e)] s" by (simp add: replace_code_scan)
  then have "replaceEmojis (x # order) s = replaceEmojis order (scan [(k, e)] s)"
    using x by (simp add: replaceEmojis_def)
  then show ?case
    using Cons.IH good_table_tl [OF Cons.prems] scan_compose Cons.prems x by simp
qed

text \<open>A scanned text holds no code any more.\<close>

lemma find_sub_append_disjoint:
  "k \<noteq> [] \<Longrightarrow> set e \<inter> set k = {} \<Longrightarrow> find_sub k w = None \<Longrightarrow> find_sub k (e @ w) = None"
  by (induction e) (auto simp: neq_Nil_conv)

lemma scan_no_code:
  assumes good: "good_table T" and k: "(k, e) \<in> set T"
  shows "find_sub k (scan T s) = None"
proof (induction s rule: length_induct)
  case (1 s)
  note g = good_tableD [OF good]
  have "k \<noteq> []" using g(1) k by auto
  show ?case
  proof (cases s)
    case Nil
    with \<open>k \<noteq> []\<close> show ?thesis by simp
  next
    case s: (Cons c t)
    show ?thesis
    proof (cases "match_at T s")
      case None
      have "take (length k) (scan T s) \<noteq> k"
      proof
        assume "take (length k) (scan T s) = k"
        moreover have "e'' \<noteq> [] \<and> set e'' \<inter> set k = {}" if "(k'', e'') \<in> set T" for k'' e''
          using g(2,5) [OF that] k by blast
        ultimately have "take (length k) s = k" by (blast intro: scan_prefix_back [rotated])
        with k have "match_at T s = Some (k, e)" by (simp add: match_at_iff [OF good])
        with None show False by simp
      qed
      with None s 1 show ?thesis by simp
    next
      case (Some ke)
      then obtain k' e' where m: "match_at T s = Some (k', e')" by (cases ke) simp
      then have k': "(k', e') \<in> set T" "k' \<noteq> []" by (auto dest: match_at_SomeD)
      then have "length (drop (length k') s) < length s" using s by (cases k') simp_all
      then have "find_sub k (scan T (drop (length k') s)) = None" using 1 by blast
      then have "find_sub k (e' @ scan T (drop (length k') s)) = None"
        using find_sub_append_disjoint [OF \<open>k \<noteq> []\<close>] g(5) [OF k'(1) k] by blast
      with m s show ?thesis by simp
    qed
  qed
qed

subsection \<open>The table of the program\<close>

lemma emoji_map_eq: "emoji_map = map (\<lambda>i. emoji_init ! i) ([0..<11] @ [12..<22])"
  by (simp add: emoji_map_def emoji_init_def upt_rec)

lemma emoji_map_good: "good_table emoji_map"
  unfolding emoji_map_eq emoji_init_def
  by (simp add: good_table_def clash_def upt_rec)

text \<open>What an iteration over the table can be: its entries in any order.\<close>

definition emoji_order :: "(string \<times> string) list \<Rightarrow> bool" where
  "emoji_order order \<longleftrightarrow> mset order = mset emoji_map"

lemma emoji_order_refl [simp]: "emoji_order emoji_map"
  by (simp add: emoji_order_def)

lemma emoji_order_good:
  assumes "emoji_order order"
  shows "good_table order" and "set order = set emoji_map"
proof -
  have m: "mset order = mset emoji_map" using assms by (simp add: emoji_order_def)
  then show set: "set order = set emoji_map" by (rule mset_eq_setD)
  have "mset (map fst order) = mset (map fst emoji_map)" using m by simp
  then have "distinct (map fst order) \<longleftrightarrow> distinct (map fst emoji_map)"
    by (rule mset_eq_imp_distinct_iff)
  with set emoji_map_good show "good_table order" by (simp add: good_table_def list_all_iff)
qed

lemma replaceEmojis_order:
  assumes "emoji_order order"
  shows "replaceEmojis order s = scan emoji_map s"
proof -
  note good = emoji_order_good [OF assms]
  have "replaceEmojis order s = scan order s" by (rule replaceEmojis_scan [OF good(1)])
  also have "\<dots> = scan emoji_map s" by (rule scan_cong_set [OF good(1) emoji_map_good good(2)])
  finally show ?thesis .
qed

lemma replaceEmojis_no_code:
  "emoji_order order \<Longrightarrow> code \<in> fst ` set emoji_map \<Longrightarrow> find_sub code (replaceEmojis order s) = None"
  using scan_no_code [OF emoji_map_good] by (auto simp: replaceEmojis_order)

subsection \<open>Properties\<close>

text \<open>C33: The emoji replacement does not depend on the iteration order of the table: whatever
  order the \<open>unordered_map\<close> has, the result is one scan of the text from the left with the
  whole table, and no emoji code of the table is left in it.\<close>

theorem replaceEmojis_spec:
  assumes "emoji_order order" and "code \<in> fst ` set emoji_map"
  shows "replaceEmojis order text = scan emoji_map text
     \<and> find_sub code (replaceEmojis order text) = None"
  using replaceEmojis_order [OF assms(1)] replaceEmojis_no_code [OF assms] by blast

theorem replaceEmojis_spec_witness:
  "replaceEmojis (rev emoji_map) ''a:)b'' = scan emoji_map ''a:)b''
     \<and> find_sub '':)'' (replaceEmojis (rev emoji_map) ''a:)b'') = None"
proof -
  have o: "emoji_order (rev emoji_map)" by (simp add: emoji_order_def)
  have c: "'':)'' \<in> fst ` set emoji_map" by (simp add: emoji_map_eq emoji_init_def upt_rec)
  show ?thesis by (rule replaceEmojis_spec [OF o c])
qed

end
