(* ===== verification/Password.thy ===== *)
theory Password
  imports Base64 Numbers
begin

unbundle bit_operations_syntax

section \<open>Password storage (src/server.cpp, lines 36--141)\<close>

text \<open>
  \<open>generateSalt\<close>, \<open>hashPasswordWithSalt\<close>, \<open>hashPassword\<close> and \<open>verifyPassword\<close>. The
  build files never define the preprocessor symbol \<open>OPENSSL_FOUND\<close>, so the program that
  is built takes the branch without OpenSSL: the stored text is the hexadecimal salt, a
  colon, and the password masked with the salt. The other branch is modelled too, with the
  key derivation function of OpenSSL as a parameter.
\<close>

text \<open>\<open>draw i\<close> is the \<open>i\<close>-th value of the distribution over 0 to 255.\<close>

definition generateSalt :: "(nat \<Rightarrow> nat) \<Rightarrow> nat \<Rightarrow> string" where
  "generateSalt draw len = map (\<lambda>i. char_of (draw i)) [0..<len]"

text \<open>
  One character of the masked password. The index \<open>i % salt.length()\<close> traps for an empty
  salt; \<open>hashPasswordWithSalt\<close> has that case as an abort.
\<close>

definition mask_char :: "string \<Rightarrow> nat \<Rightarrow> char \<Rightarrow> char" where
  "mask_char salt i c =
     (let salt_char = (if i < length salt then salt ! i else salt ! (i mod length salt))
      in char_of_u8 (u8_of_char c XOR u8_of_char salt_char XOR of_nat (i mod 256)))"

definition mask_password :: "string \<Rightarrow> string \<Rightarrow> string" where
  "mask_password salt password = map (\<lambda>i. mask_char salt i (password ! i)) [0..<length password]"

definition hashPasswordWithSalt :: "string \<Rightarrow> string \<Rightarrow> abort + string" where
  "hashPasswordWithSalt password salt =
     (if password \<noteq> [] \<and> salt = [] then Inl Division_by_zero
      else Inr (hex_string salt @ [colon] @ hex_string (mask_password salt password)))"

text \<open>The branch with OpenSSL; \<open>kdf p s n l\<close> is \<open>PKCS5_PBKDF2_HMAC\<close> with SHA-256.\<close>

definition hashPasswordWithSalt_ssl ::
  "(string \<Rightarrow> string \<Rightarrow> nat \<Rightarrow> nat \<Rightarrow> string) \<Rightarrow> string \<Rightarrow> string \<Rightarrow> abort + string" where
  "hashPasswordWithSalt_ssl kdf password salt =
     (let iterations = 100000; hash_length = 32
      in Inr (hex_string salt @ [colon] @ hex_string (kdf password salt iterations hash_length)))"

definition hashPassword :: "(nat \<Rightarrow> nat) \<Rightarrow> string \<Rightarrow> abort + string" where
  "hashPassword draw password = hashPasswordWithSalt password (generateSalt draw 16)"

text \<open>The loop that turns the hexadecimal salt back into bytes, two characters at a time.\<close>

fun unhex :: "string \<Rightarrow> abort + string" where
  "unhex [] = Inr []"
| "unhex [a] = (case stoi 16 [a] of Inl e \<Rightarrow> Inl e | Inr v \<Rightarrow> Inr [char_of v])"
| "unhex (a # b # s) =
     (case stoi 16 [a, b] of
        Inl e \<Rightarrow> Inl e
      | Inr v \<Rightarrow> (case unhex s of Inl e \<Rightarrow> Inl e | Inr t \<Rightarrow> Inr (char_of v # t)))"

definition verifyPassword_with ::
  "(string \<Rightarrow> string \<Rightarrow> abort + string) \<Rightarrow> string \<Rightarrow> string \<Rightarrow> abort + bool" where
  "verifyPassword_with hash password stored_hash =
     (case find_char colon stored_hash 0 of
        None \<Rightarrow> Inr False
      | Some colon_pos \<Rightarrow>
          (case unhex (substr stored_hash 0 colon_pos) of
             Inl e \<Rightarrow> Inl e
           | Inr salt \<Rightarrow>
               (case hash password salt of
                  Inl e \<Rightarrow> Inl e
                | Inr computed_hash \<Rightarrow> Inr (computed_hash = stored_hash))))"

definition verifyPassword :: "string \<Rightarrow> string \<Rightarrow> abort + bool" where
  "verifyPassword = verifyPassword_with hashPasswordWithSalt"

lemma unhex_hex_string [simp]: "unhex (hex_string s) = Inr s"
proof (induction s)
  case (Cons c s)
  obtain a b where ab: "hex2 c = [a, b]" by (simp add: hex2_def)
  then have "stoi 16 [a, b] = Inr (of_char c)" using hex2_parse [of c] by simp
  moreover have "char_of (of_char c :: int) = c" by simp
  ultimately show ?case using Cons ab by (simp add: hex_string_Cons)
qed simp

lemma length_generateSalt [simp]: "length (generateSalt draw n) = n"
  by (simp add: generateSalt_def)

subsection \<open>The interface: salted hashes in the format \<open>salt:digest\<close>\<close>

text \<open>
  What \<open>verifyPassword\<close> relies on: for a non-empty salt the hash is the hexadecimal salt, a
  colon and a digest. Both variants of the code provide it.
\<close>

locale salted_hash =
  fixes hash :: "string \<Rightarrow> string \<Rightarrow> abort + string"
    and digest :: "string \<Rightarrow> string \<Rightarrow> string"
  assumes hash_format: "salt \<noteq> [] \<Longrightarrow> hash p salt = Inr (hex_string salt @ [colon] @ digest p salt)"
begin

lemma verify_stored:
  assumes "salt \<noteq> []"
  shows "verifyPassword_with hash p (hex_string salt @ [colon] @ d) = Inr (digest p salt = d)"
proof -
  let ?h = "hex_string salt @ [colon] @ d"
  have "find_char colon ?h 0 = Some (length (hex_string salt))"
    using find_char_append [of "[]" 0 colon "hex_string salt" d] hex_string_safe by fastforce
  moreover have "substr ?h 0 (length (hex_string salt)) = hex_string salt" by (simp add: substr_def)
  ultimately show ?thesis using assms by (simp add: verifyPassword_with_def hash_format)
qed

lemma verify_hash:
  assumes "salt \<noteq> []" and "hash q salt = Inr h"
  shows "verifyPassword_with hash p h = Inr (digest p salt = digest q salt)"
  using assms verify_stored [OF assms(1), of p "digest q salt"] by (simp add: hash_format)

lemma verify_own: "salt \<noteq> [] \<Longrightarrow> hash q salt = Inr h \<Longrightarrow> verifyPassword_with hash q h = Inr True"
  by (simp add: verify_hash)

end

text \<open>A digest from which the password can be read off accepts that password only.\<close>

locale injective_hash = salted_hash +
  assumes digest_inj: "salt \<noteq> [] \<Longrightarrow> digest p salt = digest q salt \<Longrightarrow> p = q"
begin

lemma verify_iff:
  "salt \<noteq> [] \<Longrightarrow> hash q salt = Inr h \<Longrightarrow> verifyPassword_with hash p h = Inr (p = q)"
  using verify_hash [of salt q h p] digest_inj [of salt p q] by auto

end

subsection \<open>The masked password\<close>

lemma mask_char_involution [simp]: "mask_char salt i (mask_char salt i c) = c"
proof -
  have "(x XOR s XOR k) XOR s XOR k = x" for x s k :: u8
    by (rule bit_word_eqI) (auto simp: bit_xor_iff)
  then show ?thesis by (simp add: mask_char_def Let_def)
qed

lemma length_mask_password [simp]: "length (mask_password salt p) = length p"
  by (simp add: mask_password_def)

lemma mask_password_involution [simp]: "mask_password salt (mask_password salt p) = p"
  by (rule nth_equalityI) (simp_all add: mask_password_def)

lemma mask_password_inj: "mask_password salt p = mask_password salt q \<longleftrightarrow> p = q"
  by (metis mask_password_involution)

interpretation masked: injective_hash hashPasswordWithSalt "\<lambda>p salt. hex_string (mask_password salt p)"
  by unfold_locales (simp_all add: hashPasswordWithSalt_def hex_string_inj mask_password_inj)

interpretation pbkdf2: salted_hash "hashPasswordWithSalt_ssl kdf" "\<lambda>p salt. hex_string (kdf p salt 100000 32)"
  for kdf
  by unfold_locales (simp add: hashPasswordWithSalt_ssl_def Let_def)

lemma hashPassword_eq:
  "hashPassword draw p =
     Inr (hex_string (generateSalt draw 16) @ [colon] @ hex_string (mask_password (generateSalt draw 16) p))"
proof -
  have "generateSalt draw 16 \<noteq> []" using length_generateSalt [of draw 16] by (metis list.size(3) zero_neq_numeral)
  then show ?thesis by (simp add: hashPassword_def masked.hash_format)
qed

lemma verify_hashPassword: "hashPassword draw q = Inr h \<Longrightarrow> verifyPassword p h = Inr (p = q)"
proof -
  assume "hashPassword draw q = Inr h"
  moreover have "generateSalt draw 16 \<noteq> []"
    using length_generateSalt [of draw 16] by (metis list.size(3) zero_neq_numeral)
  ultimately show ?thesis
    using masked.verify_iff [of "generateSalt draw 16" q h p] by (simp add: verifyPassword_def hashPassword_def)
qed

text \<open>What an account entry looks like: a non-empty salt and a masked password.\<close>

definition wf_hash :: "string \<Rightarrow> bool" where
  "wf_hash h \<longleftrightarrow> (\<exists>salt d. salt \<noteq> [] \<and> h = hex_string salt @ [colon] @ d)"

lemma wf_hash_hashPassword: "hashPassword draw p = Inr h \<Longrightarrow> wf_hash h"
  using length_generateSalt [of draw 16] unfolding hashPassword_eq wf_hash_def
  by (metis list.size(3) sum.inject(2) zero_neq_numeral)

lemma verify_wf_total: "wf_hash h \<Longrightarrow> \<exists>b. verifyPassword p h = Inr b"
  using masked.verify_stored by (auto simp: wf_hash_def verifyPassword_def)

lemma verify_no_colon: "colon \<notin> set h \<Longrightarrow> verifyPassword p h = Inr False"
  by (simp add: verifyPassword_def verifyPassword_with_def)

text \<open>
  Reading a password back from its stored form: the mask is undone with the salt that is
  stored beside it.
\<close>

definition unmask :: "string \<Rightarrow> string option" where
  "unmask stored =
     (case find_char colon stored 0 of
        None \<Rightarrow> None
      | Some p \<Rightarrow>
          (case (unhex (take p stored), unhex (drop (p + 1) stored)) of
             (Inr salt, Inr m) \<Rightarrow> Some (mask_password salt m)
           | _ \<Rightarrow> None))"

lemma unmask_stored:
  "unmask (hex_string salt @ [colon] @ hex_string (mask_password salt p)) = Some p"
proof -
  let ?h = "hex_string salt @ [colon] @ hex_string (mask_password salt p)"
  have f: "find_char colon ?h 0 = Some (length (hex_string salt))"
    using find_char_append [of "[]" 0 colon "hex_string salt"] hex_string_safe by fastforce
  show ?thesis unfolding unmask_def f by simp
qed

subsection \<open>Properties\<close>

text \<open>Password verification is exact: hashing never fails, whatever the random salt, and the
  stored text accepts the password it was made from and no other.\<close>

theorem password_exact:
  "\<exists>h. hashPassword draw q = Inr h \<and> verifyPassword p h = Inr (p = q) \<and> wf_hash h"
  using verify_hashPassword [of draw q _ p] wf_hash_hashPassword [of draw q]
  by (simp add: hashPassword_eq)

text \<open>The stored text is not a hash: anyone who reads it reads the password, because the
  mask is undone with the salt beside it.\<close>

theorem password_recoverable:
  "\<exists>h. hashPassword draw q = Inr h \<and> unmask h = Some q"
  using unmask_stored by (simp add: hashPassword_eq)

end
