(* ===== verification/Server_State.thy ===== *)
theory Server_State
  imports Protocol Emoji Password
begin

section \<open>The state of ChatServer (include/common.h, include/server.h)\<close>

text \<open>
  The members of \<open>ChatServer\<close> as one record, the primitive operations every handler of
  src/server.cpp is composed of (sending, broadcasting, looking a client up, changing it
  through its reference), and the well-formedness invariant of the state.

  What the code does to the world outside (socket writes, callbacks, closing a descriptor)
  is appended to \<open>trace\<close> in the order of the calls. The result of \<open>send\<close> is only
  printed by the code, so a write is an event without a result.
\<close>

declare map_of_eq_Some_iff [simp del] Some_eq_map_of_iff [simp del]

subsection \<open>Data\<close>

record client_info =
  socket_fd :: int
  ci_name :: string
  ci_password :: string
  ip_address :: string
  port :: nat
  connect_time :: int
  is_logged_in :: bool
  is_admin :: bool
  is_muted :: bool
  mute_end_time :: int
  current_room :: string

text \<open>\<open>std::make_unique<ClientInfo>()\<close> value-initialises every member.\<close>

definition new_client :: client_info where
  "new_client =
     \<lparr>socket_fd = 0, ci_name = [], ci_password = [], ip_address = [], port = 0, connect_time = 0,
      is_logged_in = False, is_admin = False, is_muted = False, mute_end_time = 0,
      current_room = []\<rparr>"

record chat_room =
  room_name :: string
  creator :: string
  members :: "string list"
  create_time :: int
  is_private :: bool
  room_password :: string

datatype event =
    Send int string
  | Ws_broadcast string
  | Ws_send_to string string
  | Message_cb chat_message
  | Connect_cb int string
  | Disconnect_cb int string
  | Close int

text \<open>
  A client thread has an identity (\<open>client_threads\<close> maps the descriptor to it, as the
  code's map does to the \<open>std::thread\<close>); \<open>exited\<close> are the threads whose function has
  returned, which is what a \<open>join\<close> waits for. \<open>disk\<close> is the file system. The callbacks are
  installed or not; what they do is not the server's.
\<close>

record server =
  running :: bool
  accept_thread :: bool
  clients :: "(int \<times> client_info) list"
  name_to_socket :: "(string \<times> int) list"
  client_threads :: "(int \<times> nat) list"
  exited :: "nat list"
  next_thread :: nat
  users :: "(string \<times> string) list"
  rooms :: "(string \<times> chat_room) list"
  message_history :: "chat_message list"
  room_message_history :: "(string \<times> chat_message list) list"
  max_history_size :: nat
  websocket_clients :: "(string \<times> nat) list"
  message_callback :: bool
  connect_callback :: bool
  disconnect_callback :: bool
  websocket_broadcast_callback :: bool
  websocket_sendto_callback :: bool
  disk :: "string \<Rightarrow> string option"
  trace :: "event list"

text \<open>\<open>ChatServer::ChatServer()\<close>.\<close>

definition new_server :: "(string \<Rightarrow> string option) \<Rightarrow> server" where
  "new_server files =
     \<lparr>running = False, accept_thread = False, clients = [], name_to_socket = [], client_threads = [], exited = [],
      next_thread = 0, users = [], rooms = [], message_history = [], room_message_history = [],
      max_history_size = 1000, websocket_clients = [], message_callback = False,
      connect_callback = False, disconnect_callback = False, websocket_broadcast_callback = False,
      websocket_sendto_callback = False, disk = files, trace = []\<rparr>"

text \<open>
  What the handling of one line takes from its environment: the clock (nanoseconds, read
  once per line in the model), the two random sources, the iteration order of the emoji
  table, \<open>utils::formatTimestamp\<close> (it depends on the time zone), and whether
  \<open>std::ofstream\<close> can open a file.
\<close>

record env =
  clock :: int
  draw_salt :: "nat \<Rightarrow> nat"
  draw_id :: "nat \<Rightarrow> nat"
  emojis :: "(string \<times> string) list"
  format_time :: "int \<Rightarrow> string"
  can_write :: "string \<Rightarrow> bool"

text \<open>
  A handler returns the new state, or how its thread was stopped, with the state at that
  moment.
\<close>

type_synonym result = "(abort \<times> server) + server"

text \<open>A computation that may throw is run, and its exception is not caught.\<close>

definition try_call :: "server \<Rightarrow> abort + 'a \<Rightarrow> ('a \<Rightarrow> result) \<Rightarrow> result" where
  "try_call s r f = (case r of Inl e \<Rightarrow> Inl (e, s) | Inr x \<Rightarrow> f x)"

subsection \<open>Primitive operations\<close>

definition emit :: "event \<Rightarrow> server \<Rightarrow> server" where
  "emit e s = s\<lparr>trace := trace s @ [e]\<rparr>"

definition sendToSocket :: "int \<Rightarrow> string \<Rightarrow> server \<Rightarrow> server" where
  "sendToSocket fd message s = emit (Send fd message) s"

definition broadcast :: "string \<Rightarrow> server \<Rightarrow> server" where
  "broadcast message s =
     (let s1 = foldl (\<lambda>s (fd, _). sendToSocket fd message s) s (clients s)
      in if websocket_broadcast_callback s1 then emit (Ws_broadcast message) s1 else s1)"

definition sendSystemMessage :: "string \<Rightarrow> server \<Rightarrow> server" where
  "sendSystemMessage message s =
     foldl (\<lambda>s (fd, _). sendToSocket fd (encodeSystemMessage message) s) s (clients s)"

definition sendToClient :: "string \<Rightarrow> string \<Rightarrow> server \<Rightarrow> server" where
  "sendToClient client_name message s =
     (case map_of (name_to_socket s) client_name of
        Some fd \<Rightarrow> sendToSocket fd message s
      | None \<Rightarrow> if websocket_sendto_callback s then emit (Ws_send_to client_name message) s else s)"

definition message_event :: "chat_message \<Rightarrow> server \<Rightarrow> server" where
  "message_event m s = (if message_callback s then emit (Message_cb m) s else s)"

definition getClientBySocket :: "int \<Rightarrow> server \<Rightarrow> client_info option" where
  "getClientBySocket fd s = map_of (clients s) fd"

definition getClientByNameUnlocked :: "string \<Rightarrow> server \<Rightarrow> client_info option" where
  "getClientByNameUnlocked name s =
     (case map_of (name_to_socket s) name of
        Some fd \<Rightarrow> map_of (clients s) fd
      | None \<Rightarrow> None)"

definition getClientByName :: "string \<Rightarrow> server \<Rightarrow> client_info option" where
  "getClientByName name s = getClientByNameUnlocked name s"

definition getClientCount :: "server \<Rightarrow> nat" where
  "getClientCount s = length (clients s)"

definition getClients :: "server \<Rightarrow> client_info list" where
  "getClients s = map snd (clients s)"

definition isRunning :: "server \<Rightarrow> bool" where
  "isRunning s = running s"

text \<open>An assignment through the reference \<open>ClientInfo&\<close> of the client with descriptor \<open>fd\<close>.\<close>

definition modify_client :: "int \<Rightarrow> (client_info \<Rightarrow> client_info) \<Rightarrow> server \<Rightarrow> server" where
  "modify_client fd f s =
     s\<lparr>clients := map (\<lambda>(k, c). (k, if k = fd then f c else c)) (clients s)\<rparr>"

definition setMessageCallback :: "server \<Rightarrow> server" where
  "setMessageCallback s = s\<lparr>message_callback := True\<rparr>"

definition setConnectCallback :: "server \<Rightarrow> server" where
  "setConnectCallback s = s\<lparr>connect_callback := True\<rparr>"

definition setDisconnectCallback :: "server \<Rightarrow> server" where
  "setDisconnectCallback s = s\<lparr>disconnect_callback := True\<rparr>"

definition setWebSocketBroadcastCallback :: "server \<Rightarrow> server" where
  "setWebSocketBroadcastCallback s = s\<lparr>websocket_broadcast_callback := True\<rparr>"

definition setWebSocketSendToCallback :: "server \<Rightarrow> server" where
  "setWebSocketSendToCallback s = s\<lparr>websocket_sendto_callback := True\<rparr>"

definition addWebSocketClient :: "string \<Rightarrow> nat \<Rightarrow> server \<Rightarrow> server" where
  "addWebSocketClient client_name wsi s =
     s\<lparr>websocket_clients := AList.update client_name wsi (websocket_clients s)\<rparr>"

definition removeWebSocketClient :: "string \<Rightarrow> server \<Rightarrow> server" where
  "removeWebSocketClient client_name s =
     s\<lparr>websocket_clients := AList.delete client_name (websocket_clients s)\<rparr>"

definition hasWebSocketClient :: "string \<Rightarrow> server \<Rightarrow> bool" where
  "hasWebSocketClient client_name s = (map_of (websocket_clients s) client_name \<noteq> None)"

definition getWebSocketClientCount :: "server \<Rightarrow> nat" where
  "getWebSocketClientCount s = length (websocket_clients s)"

subsection \<open>The primitives as updates of the record\<close>

text \<open>Who a broadcast reaches: every TCP client, and the WebSocket side when it is attached.\<close>

definition broadcast_events :: "string \<Rightarrow> server \<Rightarrow> event list" where
  "broadcast_events message s =
     map (\<lambda>(fd, _). Send fd message) (clients s)
       @ (if websocket_broadcast_callback s then [Ws_broadcast message] else [])"

lemma sendToSocket_eq: "sendToSocket fd m s = s\<lparr>trace := trace s @ [Send fd m]\<rparr>"
  by (simp add: sendToSocket_def emit_def)

lemma foldl_sends:
  "foldl (\<lambda>s (fd, _). sendToSocket fd m s) s cs =
     s\<lparr>trace := trace s @ map (\<lambda>(fd, _). Send fd m) cs\<rparr>"
  by (induction cs arbitrary: s) (auto simp: sendToSocket_eq)

lemma broadcast_eq: "broadcast m s = s\<lparr>trace := trace s @ broadcast_events m s\<rparr>"
  by (simp add: broadcast_def foldl_sends Let_def emit_def broadcast_events_def)

lemma sendSystemMessage_eq:
  "sendSystemMessage m s =
     s\<lparr>trace := trace s @ map (\<lambda>(fd, _). Send fd (encodeSystemMessage m)) (clients s)\<rparr>"
  by (simp add: sendSystemMessage_def foldl_sends)

lemma message_event_eq:
  "message_event m s = s\<lparr>trace := trace s @ (if message_callback s then [Message_cb m] else [])\<rparr>"
  by (simp add: message_event_def emit_def)

lemmas primitive_eqs = sendToSocket_eq broadcast_eq message_event_eq modify_client_def

declare primitive_eqs [handler_defs]

lemma broadcast_events_reach [simp]:
  "Send fd m \<in> set (broadcast_events m s) \<longleftrightarrow> fd \<in> fst ` set (clients s)"
  by (force simp: broadcast_events_def)

lemma broadcast_events_fds:
  "broadcast_events m s =
     map (\<lambda>fd. Send fd m) (map fst (clients s))
       @ (if websocket_broadcast_callback s then [Ws_broadcast m] else [])"
  by (simp add: broadcast_events_def case_prod_unfold)

lemma broadcast_events_cong:
  "map fst (clients s) = map fst (clients t) \<Longrightarrow>
     websocket_broadcast_callback s = websocket_broadcast_callback t \<Longrightarrow>
     broadcast_events m s = broadcast_events m t"
  by (simp add: broadcast_events_fds)

lemma try_call_simps [simp]:
  "try_call s (Inl e) f = Inl (e, s)"
  "try_call s (Inr x) f = f x"
  by (simp_all add: try_call_def)

lemma map_fst_modify [simp]:
  "map fst (map (\<lambda>(k, c). (k, if k = fd then f c else c)) cs) = map fst cs"
  "map (fst \<circ> (\<lambda>(k, c). (k, if k = fd then f c else c))) cs = map fst cs"
  by (induction cs) auto

lemma map_of_modify [simp]:
  "map_of (map (\<lambda>(k, c). (k, if k = fd then f c else c)) cs) k =
     (if k = fd then map_option f (map_of cs k) else map_of cs k)"
  by (induction cs) auto

end
