(* ===== verification/Persistence.thy ===== *)
theory Persistence
  imports Server_State
begin

section \<open>Histories and the two files (src/server.cpp, lines 363--439 and 551--568)\<close>

text \<open>
  \<open>addMessageToHistory\<close> and the saving and loading of users and messages. Reading a file
  by \<open>std::getline\<close> is \<open>getlines\<close>; what both files have in common, one entry per line, is
  the locale \<open>line_codec\<close>, interpreted for the entries of users.txt and for the \<open>MSG\<close>
  lines of message_history.txt.
\<close>

subsection \<open>Message history\<close>

text \<open>\<open>push_back\<close>, then drop the oldest when the bound is exceeded.\<close>

definition push_bounded :: "nat \<Rightarrow> 'a \<Rightarrow> 'a list \<Rightarrow> 'a list" where
  "push_bounded bound x xs = (let ys = xs @ [x] in if bound < length ys then tl ys else ys)"

definition addMessageToHistory :: "chat_message \<Rightarrow> server \<Rightarrow> server" where
  "addMessageToHistory m s =
     (let s1 = s\<lparr>message_history := push_bounded (max_history_size s) m (message_history s)\<rparr>
      in if receiver m \<noteq> [] \<and> msg_type m = ROOM_MESSAGE
         then s1\<lparr>room_message_history :=
                AList.update (receiver m)
                  (push_bounded (max_history_size s1) m
                     (case map_of (room_message_history s1) (receiver m) of Some ms \<Rightarrow> ms | None \<Rightarrow> []))
                  (room_message_history s1)\<rparr>
         else s1)"

subsection \<open>Files\<close>

text \<open>The lines that successive calls of \<open>std::getline(file, line)\<close> return.\<close>

function getlines :: "string \<Rightarrow> string list" where
  "getlines file =
     (if file = [] then []
      else case find_char newline file 0 of
             None \<Rightarrow> [file]
           | Some pos \<Rightarrow> substr file 0 pos # getlines (substr_from file (pos + 1)))"
  by pat_completeness auto
termination
  by (relation "measure length") (auto simp: substr_from_def)

declare getlines.simps [simp del]

definition parse_user :: "string \<Rightarrow> (string \<times> string) option" where
  "parse_user line =
     (case find_char colon line 0 of
        None \<Rightarrow> None
      | Some pos \<Rightarrow> Some (substr line 0 pos, substr_from line (pos + 1)))"

definition load_user :: "string \<Rightarrow> server \<Rightarrow> server" where
  "load_user line s =
     (if line = [] then s
      else case parse_user line of
             None \<Rightarrow> s
           | Some (name, password) \<Rightarrow> s\<lparr>users := AList.update name password (users s)\<rparr>)"

definition loadUsers :: "string \<Rightarrow> server \<Rightarrow> bool \<times> server" where
  "loadUsers filename s =
     (case disk s filename of
        None \<Rightarrow> (False, s)
      | Some file \<Rightarrow> (True, foldl (\<lambda>s line. load_user line s) s (getlines file)))"

definition user_line :: "string \<times> string \<Rightarrow> string" where
  "user_line entry = fst entry @ '':'' @ snd entry @ [newline]"

definition saveUsers :: "env \<Rightarrow> string \<Rightarrow> server \<Rightarrow> bool \<times> server" where
  "saveUsers e filename s =
     (if \<not> can_write e filename then (False, s)
      else (True, s\<lparr>disk := (disk s)(filename \<mapsto> concat (map user_line (users s)))\<rparr>))"

definition load_message :: "env \<Rightarrow> string \<Rightarrow> server \<Rightarrow> server" where
  "load_message e line s =
     (if line = [] then s
      else case decode (clock e) line of
             None \<Rightarrow> s
           | Some m \<Rightarrow> addMessageToHistory m s)"

definition loadMessageHistory :: "env \<Rightarrow> string \<Rightarrow> server \<Rightarrow> bool \<times> server" where
  "loadMessageHistory e filename s =
     (case disk s filename of
        None \<Rightarrow> (False, s)
      | Some file \<Rightarrow> (True, foldl (\<lambda>s line. load_message e line s) s (getlines file)))"

definition saveMessageHistory :: "env \<Rightarrow> string \<Rightarrow> server \<Rightarrow> bool \<times> server" where
  "saveMessageHistory e filename s =
     (if \<not> can_write e filename then (False, s)
      else (True, s\<lparr>disk := (disk s)(filename \<mapsto> concat (map encode (message_history s)))\<rparr>))"

subsection \<open>Bounds of the histories\<close>

lemma length_push_bounded:
  "length xs \<le> n \<Longrightarrow> 0 < n \<Longrightarrow> length (push_bounded n x xs) \<le> n"
  by (auto simp: push_bounded_def Let_def)

lemma set_push_bounded: "set (push_bounded n x xs) \<subseteq> insert x (set xs)"
  by (cases xs) (auto simp: push_bounded_def Let_def)

lemma push_bounded_room: "length xs < n \<Longrightarrow> push_bounded n x xs = xs @ [x]"
  by (simp add: push_bounded_def)

lemma last_push_bounded: "0 < n \<Longrightarrow> push_bounded n x xs \<noteq> [] \<and> last (push_bounded n x xs) = x"
  by (cases xs) (auto simp: push_bounded_def Let_def)

subsection \<open>Reading lines back\<close>

lemma getlines_Nil [simp]: "getlines [] = []"
  by (simp add: getlines.simps)

lemma getlines_line:
  assumes "newline \<notin> set l"
  shows "getlines (l @ newline # rest) = l # getlines rest"
proof -
  have "find_char newline (l @ newline # rest) 0 = Some (length l)"
    using find_char_append [of "[]" 0 newline l rest] assms by simp
  then show ?thesis
    by (simp add: getlines.simps [of "l @ newline # rest"] substr_def substr_from_def)
qed

text \<open>
  The interface between a writer and a reader of such a file: \<open>print\<close> writes one entry as a
  non-empty line, \<open>parse\<close> reads the line of an acceptable entry as \<open>canon\<close> of it.
\<close>

locale line_codec =
  fixes print :: "'a \<Rightarrow> string"
    and parse :: "string \<Rightarrow> 'b option"
    and body :: "'a \<Rightarrow> string"
    and canon :: "'a \<Rightarrow> 'b"
    and ok :: "'a \<Rightarrow> bool"
  assumes print_line: "ok x \<Longrightarrow> print x = body x @ [newline]"
    and body_line: "ok x \<Longrightarrow> body x \<noteq> [] \<and> newline \<notin> set (body x)"
    and parse_body: "ok x \<Longrightarrow> parse (body x) = Some (canon x)"
begin

lemma getlines_print: "(\<And>x. x \<in> set xs \<Longrightarrow> ok x) \<Longrightarrow> getlines (concat (map print xs)) = map body xs"
  by (induction xs) (simp_all add: print_line body_line getlines_line)

text \<open>A loader that parses every line and stores what it parsed.\<close>

lemma load_print:
  assumes "\<And>x. x \<in> set xs \<Longrightarrow> ok x"
    and load: "\<And>x s. x \<in> set xs \<Longrightarrow> load (body x) s = store (canon x) s"
  shows "foldl (\<lambda>s line. load line s) s (getlines (concat (map print xs))) =
         foldl (\<lambda>s x. store (canon x) s) s xs"
proof -
  have "foldl (\<lambda>s line. load line s) s (map body xs) = foldl (\<lambda>s x. store (canon x) s) s xs"
    using load by (induction xs arbitrary: s) auto
  then show ?thesis using getlines_print [OF assms(1)] by simp
qed

end

text \<open>Entries of users.txt: the name has no colon, and neither part has a line break.\<close>

definition user_ok :: "string \<times> string \<Rightarrow> bool" where
  "user_ok entry \<longleftrightarrow> colon \<notin> set (fst entry) \<and> newline \<notin> set (fst entry) \<and> newline \<notin> set (snd entry)"

lemma parse_user_line: "colon \<notin> set name \<Longrightarrow> parse_user (name @ colon # password) = Some (name, password)"
  using find_char_append [of "[]" 0 colon name password]
  by (simp add: parse_user_def substr_def substr_from_def)

interpretation user_file: line_codec user_line parse_user
    "\<lambda>entry. fst entry @ '':'' @ snd entry" id user_ok
  by unfold_locales (auto simp: user_line_def user_ok_def parse_user_line)

text \<open>Messages whose line is one line.\<close>

definition storable :: "chat_message \<Rightarrow> bool" where
  "storable m \<longleftrightarrow> sendable m \<and> newline \<notin> set (sender m) \<and> newline \<notin> set (receiver m)
     \<and> newline \<notin> set (message_id m)"

lemma encode_line:
  assumes "storable m"
  shows "encode m = butlast (encode m) @ [newline]"
    and "butlast (encode m) \<noteq> [] \<and> newline \<notin> set (butlast (encode m))"
proof -
  show "encode m = butlast (encode m) @ [newline]"
    by (simp add: encode_def butlast_append)
  have "newline \<notin> set (base64Encode (content m))"
    using base64Encode_safe by blast
  then show "butlast (encode m) \<noteq> [] \<and> newline \<notin> set (butlast (encode m))"
    using assms by (auto simp: encode_def butlast_append storable_def)
qed

interpretation message_file: line_codec encode "decode now" "\<lambda>m. butlast (encode m)"
    "received now" storable for now
proof unfold_locales
  fix m :: chat_message
  assume ok: "storable m"
  then show "encode m = butlast (encode m) @ [newline]" by (rule encode_line)
  show "butlast (encode m) \<noteq> [] \<and> newline \<notin> set (butlast (encode m))"
    using ok by (rule encode_line)
  show "decode now (butlast (encode m)) = Some (received now m)"
    using ok by (intro decode_encode_line) (simp_all add: storable_def)
qed

subsection \<open>Properties\<close>

lemma foldl_push_bounded:
  "length xs \<le> n \<Longrightarrow> 0 < n \<Longrightarrow>
     foldl (\<lambda>xs x. push_bounded n x xs) xs ys = drop (length xs + length ys - n) (xs @ ys)"
proof (induction ys arbitrary: xs)
  case (Cons y ys)
  have step: "push_bounded n y xs = drop (length xs + 1 - n) (xs @ [y])"
    using Cons.prems by (cases "length xs < n"; cases xs) (auto simp: push_bounded_def Let_def)
  show ?case
  proof (cases "length xs < n")
    case True
    then show ?thesis using Cons.IH [of "xs @ [y]"] Cons.prems by (simp add: step)
  next
    case False
    with Cons.prems have n: "length xs = n" by simp
    obtain z zs where xs: "xs = z # zs" using Cons.prems n by (cases xs) auto
    have "foldl (\<lambda>xs x. push_bounded n x xs) (zs @ [y]) ys = drop (length ys) ((zs @ [y]) @ ys)"
    proof -
      have "foldl (\<lambda>xs x. push_bounded n x xs) (zs @ [y]) ys =
          drop (length (zs @ [y]) + length ys - n) ((zs @ [y]) @ ys)"
        using Cons.prems n xs by (intro Cons.IH) simp_all
      moreover have "length (zs @ [y]) + length ys - n = length ys" using n xs by simp
      ultimately show ?thesis by (simp only:)
    qed
    moreover have "push_bounded n y xs = zs @ [y]"
      using n xs by (simp add: push_bounded_def Let_def)
    moreover have "drop (length xs + length (y # ys) - n) (xs @ y # ys) = drop (length ys) ((zs @ [y]) @ ys)"
      using n xs by simp
    ultimately show ?thesis by simp
  qed
qed simp

lemma message_history_add:
  "message_history (addMessageToHistory m s) = push_bounded (max_history_size s) m (message_history s)"
  "max_history_size (addMessageToHistory m s) = max_history_size s"
  "users (addMessageToHistory m s) = users s"
  by (simp_all add: addMessageToHistory_def Let_def)

lemma message_history_adds:
  "message_history (foldl (\<lambda>s m. addMessageToHistory m s) s ms) =
     foldl (\<lambda>xs x. push_bounded (max_history_size s) x xs) (message_history s) ms"
  by (induction ms arbitrary: s) (simp_all add: message_history_add)

lemma users_adds: "users (foldl (\<lambda>s m. addMessageToHistory m s) s ms) = users s"
  by (induction ms arbitrary: s) (simp_all add: message_history_add)

text \<open>The history keeps the latest messages in order: after any sequence of additions it
  holds the last \<open>max_history_size\<close> of the old and the new messages.\<close>

theorem history_keeps_latest:
  assumes "length (message_history s) \<le> max_history_size s" and "0 < max_history_size s"
  shows "message_history (foldl (\<lambda>s m. addMessageToHistory m s) s ms) =
    drop (length (message_history s @ ms) - max_history_size s) (message_history s @ ms)"
  using foldl_push_bounded [OF assms, of ms] by (simp add: message_history_adds)

theorem history_keeps_latest_witness:
  "message_history (foldl (\<lambda>s m. addMessageToHistory m s) ((new_server Map.empty)\<lparr>max_history_size := 2\<rparr>)
     [new_message\<lparr>content := ''a''\<rparr>, new_message\<lparr>content := ''b''\<rparr>, new_message\<lparr>content := ''c''\<rparr>]) =
   [new_message\<lparr>content := ''b''\<rparr>, new_message\<lparr>content := ''c''\<rparr>]"
  using history_keeps_latest [of "(new_server Map.empty)\<lparr>max_history_size := 2\<rparr>"
     "[new_message\<lparr>content := ''a''\<rparr>, new_message\<lparr>content := ''b''\<rparr>, new_message\<lparr>content := ''c''\<rparr>]"]
  by (simp add: new_server_def)

text \<open>C12: A message survives the wire: the encoder writes one line, and the decoder reads from
  that line, with or without its line break, the five transmitted fields, when the names
  contain neither a separator nor a line break (the content may contain anything).\<close>

theorem message_roundtrip:
  assumes "storable m"
  shows "\<exists>l. encode m = l @ [newline] \<and> newline \<notin> set l
     \<and> decode now l = Some (received now m) \<and> decode now (encode m) = Some (received now m)"
  using encode_line [OF assms] assms message_file.parse_body [OF assms, of now]
    decode_encode [of m now]
  by (auto simp: storable_def)

definition sample_message :: chat_message where
  "sample_message = new_message\<lparr>sender := ''alice'', receiver := ''bob'', content := [CHR ''|'', newline],
     msg_type := PRIVATE, message_id := ''x1''\<rparr>"

lemma storable_sample: "storable sample_message"
  by (simp add: storable_def sendable_def sample_message_def new_message_def)

theorem message_roundtrip_witness:
  "\<exists>l. encode sample_message = l @ [newline] \<and> newline \<notin> set l
     \<and> decode 7 l = Some (received 7 sample_message)
     \<and> decode 7 (encode sample_message) = Some (received 7 sample_message)"
  using message_roundtrip [OF storable_sample, of 7] .

lemma foldl_update_fresh:
  "distinct (map fst (al @ xs)) \<Longrightarrow> foldl (\<lambda>al (n, p). AList.update n p al) al xs = al @ xs"
proof (induction xs arbitrary: al)
  case (Cons x xs)
  then have "map_of al (fst x) = None" by (auto simp: map_of_eq_None_iff)
  with Cons show ?case by (auto simp: update_absent split: prod.split)
qed simp

definition store_user :: "string \<times> string \<Rightarrow> server \<Rightarrow> server" where
  "store_user entry s = s\<lparr>users := AList.update (fst entry) (snd entry) (users s)\<rparr>"

lemma users_store: "users (foldl (\<lambda>s x. store_user x s) s xs) = foldl (\<lambda>al (n, p). AList.update n p al) (users s) xs"
  by (induction xs arbitrary: s) (auto simp: store_user_def)

lemma load_saved_users:
  assumes "list_all user_ok us"
  shows "foldl (\<lambda>s line. load_user line s) s (getlines (concat (map user_line us))) =
         foldl (\<lambda>s x. store_user x s) s us"
proof -
  have ok: "\<And>x. x \<in> set us \<Longrightarrow> user_ok x" using assms by (simp add: list_all_iff)
  have "load_user (fst x @ '':'' @ snd x) s = store_user (id x) s" if "x \<in> set us" for x s
    using ok [OF that] by (simp add: load_user_def user_ok_def parse_user_line store_user_def split: prod.split)
  from user_file.load_print [of us load_user store_user, OF ok this] show ?thesis by simp
qed

text \<open>Accounts survive a restart: what \<open>saveUsers\<close> writes, \<open>loadUsers\<close> of a new server
  reads back entry by entry, when no name has a colon or a line break.\<close>

theorem users_file_roundtrip:
  assumes "can_write e f" and "distinct (map fst (users s))" and "list_all user_ok (users s)"
  shows "users (snd (loadUsers f (new_server (disk (snd (saveUsers e f s)))))) = users s"
proof -
  let ?t = "new_server (disk (snd (saveUsers e f s)))"
  have "disk ?t f = Some (concat (map user_line (users s)))"
    using assms(1) by (simp add: saveUsers_def new_server_def)
  then have "users (snd (loadUsers f ?t)) = foldl (\<lambda>al (n, p). AList.update n p al) (users ?t) (users s)"
    by (simp add: loadUsers_def load_saved_users [OF assms(3)] users_store)
  also have "\<dots> = users s"
    using foldl_update_fresh [of "[]" "users s"] assms(2) by (simp add: new_server_def)
  finally show ?thesis .
qed

definition sample_env :: env where
  "sample_env = \<lparr>clock = 1000, draw_salt = (\<lambda>i. i + 1), draw_id = (\<lambda>i. i), emojis = emoji_map,
     format_time = show_int, can_write = (\<lambda>_. True)\<rparr>"

theorem users_file_roundtrip_witness:
  "users (snd (loadUsers ''u'' (new_server (disk (snd (saveUsers sample_env ''u''
      ((new_server Map.empty)\<lparr>users := [(''ann'', ''0a:1b''), (''bob'', ''0c:'')]\<rparr>)))))))
   = [(''ann'', ''0a:1b''), (''bob'', ''0c:'')]"
  by (subst users_file_roundtrip) (simp_all add: sample_env_def user_ok_def)

lemma load_saved_messages:
  assumes "list_all storable ms"
  shows "foldl (\<lambda>s line. load_message e line s) s (getlines (concat (map encode ms))) =
         foldl (\<lambda>s m. addMessageToHistory m s) s (map (received (clock e)) ms)"
proof -
  have ok: "\<And>x. x \<in> set ms \<Longrightarrow> storable x" using assms by (simp add: list_all_iff)
  have "load_message e (butlast (encode m)) s = addMessageToHistory (received (clock e) m) s"
    if "m \<in> set ms" for m s
    using message_file.parse_body [OF ok [OF that]] message_file.body_line [OF ok [OF that]]
    by (simp add: load_message_def)
  from message_file.load_print [of ms "load_message e" addMessageToHistory "clock e", OF ok this]
  show ?thesis by (simp add: foldl_map)
qed

text \<open>The history survives a restart: what \<open>saveMessageHistory\<close> writes,
  \<open>loadMessageHistory\<close> of a new server reads back message by message; the clock replaces the
  time stamps and the read marks are lost.\<close>

theorem history_file_roundtrip:
  assumes "can_write e f" and "length (message_history s) \<le> 1000" and "list_all storable (message_history s)"
  shows "message_history (snd (loadMessageHistory e' f (new_server (disk (snd (saveMessageHistory e f s))))))
    = map (received (clock e')) (message_history s)"
proof -
  let ?t = "new_server (disk (snd (saveMessageHistory e f s)))"
  have d: "disk ?t f = Some (concat (map encode (message_history s)))"
    using assms(1) by (simp add: saveMessageHistory_def new_server_def)
  have "message_history (snd (loadMessageHistory e' f ?t)) =
      foldl (\<lambda>xs x. push_bounded 1000 x xs) [] (map (received (clock e')) (message_history s))"
    using d by (simp add: loadMessageHistory_def load_saved_messages [OF assms(3)]
        message_history_adds new_server_def)
  also have "\<dots> = map (received (clock e')) (message_history s)"
    by (subst foldl_push_bounded) (use assms(2) in simp_all)
  finally show ?thesis .
qed

theorem history_file_roundtrip_witness:
  "message_history (snd (loadMessageHistory sample_env ''h'' (new_server (disk (snd (saveMessageHistory
      sample_env ''h'' ((new_server Map.empty)\<lparr>message_history := [sample_message]\<rparr>)))))))
   = [received 1000 sample_message]"
  by (subst history_file_roundtrip) (simp_all add: sample_env_def storable_sample)

end
