(* ===== verification/Invariant.thy ===== *)
theory Invariant
  imports Persistence
begin

section \<open>The invariant of ChatServer\<close>

text \<open>
  What holds of the server's tables whenever no handler is in the middle of a change, and
  the rules with which the component theories show that their operations keep it
  (\<open>inv_intros\<close>): one rule per primitive, in the form the handlers compose them.
\<close>

named_theorems inv_intros \<open>operations that keep the invariant of the server\<close>

subsection \<open>Definition\<close>

text \<open>\<open>clients_\<close>: keyed by the descriptor that the entry holds.\<close>

definition wf_clients :: "server \<Rightarrow> bool" where
  "wf_clients s \<longleftrightarrow> distinct (map fst (clients s))
     \<and> (\<forall>fd c. map_of (clients s) fd = Some c \<longrightarrow> socket_fd c = fd \<and> 0 \<le> fd)"

text \<open>\<open>name_to_socket_\<close>: a registered name is the name of the client it leads to.\<close>

definition wf_names :: "server \<Rightarrow> bool" where
  "wf_names s \<longleftrightarrow> distinct (map fst (name_to_socket s))
     \<and> (\<forall>n fd. map_of (name_to_socket s) n = Some fd \<longrightarrow>
          (\<exists>c. map_of (clients s) fd = Some c \<and> ci_name c = n))"

text \<open>\<open>client_threads_\<close>: every client has its thread, and no two entries share one.\<close>

definition wf_threads :: "server \<Rightarrow> bool" where
  "wf_threads s \<longleftrightarrow> distinct (map fst (client_threads s)) \<and> distinct (map snd (client_threads s))
     \<and> (\<forall>t \<in> snd ` set (client_threads s). t < next_thread s)
     \<and> fst ` set (clients s) \<subseteq> fst ` set (client_threads s)"

text \<open>
  \<open>rooms_\<close>: keyed by the room's name, never empty, nobody listed twice, and with a password
  that \<open>hashPassword\<close> made, if any.
\<close>

definition wf_room :: "string \<Rightarrow> chat_room \<Rightarrow> bool" where
  "wf_room r room \<longleftrightarrow> room_name room = r \<and> members room \<noteq> [] \<and> distinct (members room)
     \<and> (room_password room = [] \<or> wf_hash (room_password room))"

definition wf_rooms :: "server \<Rightarrow> bool" where
  "wf_rooms s \<longleftrightarrow> distinct (map fst (rooms s))
     \<and> (\<forall>r room. map_of (rooms s) r = Some room \<longrightarrow> wf_room r room)"

text \<open>The histories: bounded, and a room's history holds that room's messages only.\<close>

definition wf_room_messages :: "nat \<Rightarrow> string \<Rightarrow> chat_message list \<Rightarrow> bool" where
  "wf_room_messages bound r ms \<longleftrightarrow> length ms \<le> bound
     \<and> (\<forall>m \<in> set ms. receiver m = r \<and> msg_type m = ROOM_MESSAGE)"

definition wf_history :: "server \<Rightarrow> bool" where
  "wf_history s \<longleftrightarrow> 0 < max_history_size s \<and> max_history_size s \<le> 1000 \<and> length (message_history s) \<le> max_history_size s
     \<and> distinct (map fst (room_message_history s))
     \<and> (\<forall>r ms. map_of (room_message_history s) r = Some ms \<longrightarrow>
          wf_room_messages (max_history_size s) r ms)"

definition server_inv :: "server \<Rightarrow> bool" where
  "server_inv s \<longleftrightarrow> wf_clients s \<and> wf_names s \<and> wf_threads s \<and> wf_rooms s \<and> wf_history s
     \<and> distinct (map fst (users s))"

lemmas wf_defs = wf_clients_def wf_names_def wf_threads_def wf_rooms_def wf_history_def

text \<open>
  A result keeps the invariant when its state does, also the state at an abort: when a
  thread is stuck in a join the other threads go on with that state.
\<close>

definition result_inv :: "(server \<Rightarrow> bool) \<Rightarrow> result \<Rightarrow> bool" where
  "result_inv P r = (case r of Inl (_, s) \<Rightarrow> P s | Inr s \<Rightarrow> P s)"

lemma result_inv_simps [simp]:
  "result_inv P (Inl (a, s)) = P s"
  "result_inv P (Inr s) = P s"
  by (simp_all add: result_inv_def)

lemma clients_have_threads:
  "server_inv s \<Longrightarrow> fst ` set (clients s) \<subseteq> fst ` set (client_threads s)"
  by (simp add: server_inv_def wf_threads_def)

lemma result_inv_mono: "result_inv P r \<Longrightarrow> (\<And>t. P t \<Longrightarrow> Q t) \<Longrightarrow> result_inv Q r"
  by (auto simp: result_inv_def split: sum.splits prod.splits)

lemma result_inv_try_call [inv_intros]:
  "P s \<Longrightarrow> (\<And>x. r = Inr x \<Longrightarrow> result_inv P (f x)) \<Longrightarrow> result_inv P (try_call s r f)"
  by (cases r) simp_all

subsection \<open>The initial state\<close>

lemma server_inv_new [inv_intros]: "server_inv (new_server files)"
  by (simp add: server_inv_def wf_defs new_server_def)

subsection \<open>Changes of single members\<close>

lemma server_inv_trace [simp]: "server_inv (s\<lparr>trace := t\<rparr>) = server_inv s"
  by (simp add: server_inv_def wf_defs)

lemma server_inv_disk [simp]: "server_inv (s\<lparr>disk := d\<rparr>) = server_inv s"
  by (simp add: server_inv_def wf_defs)

lemma server_inv_users [inv_intros]:
  "server_inv s \<Longrightarrow> server_inv (s\<lparr>users := AList.update n h (users s)\<rparr>)"
  by (simp add: server_inv_def wf_defs)

lemma server_inv_send [inv_intros]: "server_inv s \<Longrightarrow> server_inv (sendToSocket fd m s)"
  by (simp add: sendToSocket_eq)

lemma server_inv_broadcast [inv_intros]: "server_inv s \<Longrightarrow> server_inv (broadcast m s)"
  by (simp add: broadcast_eq)

lemma server_inv_event [inv_intros]: "server_inv s \<Longrightarrow> server_inv (message_event m s)"
  by (simp add: message_event_eq)

lemma server_inv_emit [inv_intros]: "server_inv s \<Longrightarrow> server_inv (emit e s)"
  by (simp add: emit_def)

lemma server_inv_modify:
  assumes "\<And>c. socket_fd (f c) = socket_fd c \<and> ci_name (f c) = ci_name c" and "server_inv s"
  shows "server_inv (modify_client fd f s)"
proof -
  let ?t = "modify_client fd f s"
  have keys: "fst ` set (clients ?t) = fst ` set (clients s)"
    by (force simp: modify_client_def)
  have 1: "wf_clients ?t"
    using assms by (auto simp: server_inv_def wf_clients_def modify_client_def split: if_splits)
  have "\<exists>c. map_of (clients ?t) k = Some c \<and> ci_name c = n"
    if "map_of (name_to_socket s) n = Some k" for n k
  proof -
    from that assms(2) obtain c where "map_of (clients s) k = Some c" "ci_name c = n"
      unfolding server_inv_def wf_names_def by blast
    then show ?thesis using assms(1) by (cases "k = fd") (simp_all add: modify_client_def)
  qed
  then have 2: "wf_names ?t"
    using assms(2) by (simp add: server_inv_def wf_names_def) (simp add: modify_client_def)
  have 3: "wf_threads ?t"
    using assms(2) keys by (simp add: server_inv_def wf_threads_def) (simp add: modify_client_def)
  from 1 2 3 show ?thesis
    using assms(2) by (simp add: server_inv_def wf_rooms_def wf_history_def) (simp add: modify_client_def)
qed

lemma server_inv_modifies [inv_intros]:
  "server_inv s \<Longrightarrow> server_inv (modify_client fd (\<lambda>c. c\<lparr>is_admin := b\<rparr>) s)"
  "server_inv s \<Longrightarrow> server_inv (modify_client fd (\<lambda>c. c\<lparr>is_muted := b\<rparr>) s)"
  "server_inv s \<Longrightarrow> server_inv (modify_client fd (\<lambda>c. c\<lparr>is_muted := b, mute_end_time := t\<rparr>) s)"
  "server_inv s \<Longrightarrow> server_inv (modify_client fd (\<lambda>c. c\<lparr>current_room := r\<rparr>) s)"
  by (rule server_inv_modify; simp)+

lemma server_inv_history [inv_intros]:
  assumes "server_inv s"
  shows "server_inv (addMessageToHistory m s)"
proof -
  let ?max = "max_history_size s"
  define old where
    "old = (case map_of (room_message_history s) (receiver m) of Some ms \<Rightarrow> ms | None \<Rightarrow> [])"
  from assms have h: "wf_history s" by (simp add: server_inv_def)
  then have old: "wf_room_messages ?max (receiver m) old"
    by (auto simp: wf_history_def wf_room_messages_def old_def split: option.split)
  have new: "wf_room_messages ?max (receiver m) (push_bounded ?max m old)"
    if "msg_type m = ROOM_MESSAGE"
    unfolding wf_room_messages_def
  proof (intro conjI ballI)
    show "length (push_bounded ?max m old) \<le> ?max"
      using old h by (intro length_push_bounded) (simp_all add: wf_room_messages_def wf_history_def)
    fix m' assume "m' \<in> set (push_bounded ?max m old)"
    then consider "m' = m" | "m' \<in> set old" using set_push_bounded [of ?max m old] by blast
    then show "receiver m' = receiver m" and "msg_type m' = ROOM_MESSAGE"
      using that old by (cases; simp add: wf_room_messages_def)+
  qed
  have "wf_history (addMessageToHistory m s)" if "\<not> (receiver m \<noteq> [] \<and> msg_type m = ROOM_MESSAGE)"
    using h that by (auto simp: wf_history_def addMessageToHistory_def Let_def length_push_bounded)
  moreover have "wf_history (addMessageToHistory m s)" if "receiver m \<noteq> [] \<and> msg_type m = ROOM_MESSAGE"
    using h that new
    by (simp add: wf_history_def addMessageToHistory_def Let_def length_push_bounded old_def)
  ultimately have "wf_history (addMessageToHistory m s)" by blast
  with assms show ?thesis
    by (simp add: server_inv_def wf_clients_def wf_names_def wf_threads_def wf_rooms_def
        addMessageToHistory_def Let_def)
qed

subsection \<open>Clients come and change their names\<close>

text \<open>
  Renaming a client in both tables, as the locked blocks of login, registration and
  renaming do it.
\<close>

lemma server_inv_rename:
  assumes "server_inv s" and "map_of (clients s) fd = Some client"
    and f: "\<And>c. socket_fd (f c) = socket_fd c \<and> ci_name (f c) = name"
  shows "server_inv (s\<lparr>clients := map (\<lambda>(k, c). (k, if k = fd then f c else c)) (clients s),
           name_to_socket := AList.update name fd (AList.delete (ci_name client) (name_to_socket s))\<rparr>)"
    (is "server_inv ?t")
proof -
  have keys: "fst ` set (clients ?t) = fst ` set (clients s)" by force
  have "wf_names ?t" unfolding wf_names_def
  proof (intro conjI allI impI)
    show "distinct (map fst (name_to_socket ?t))"
      using assms(1) by (simp add: server_inv_def wf_names_def)
    fix n k
    assume "map_of (name_to_socket ?t) n = Some k"
    then consider "n = name" "k = fd" | "n \<noteq> name" "n \<noteq> ci_name client" "map_of (name_to_socket s) n = Some k"
      by (auto split: if_splits)
    then show "\<exists>c. map_of (clients ?t) k = Some c \<and> ci_name c = n"
    proof cases
      case 1
      then show ?thesis using assms(2) f by simp
    next
      case 2
      then obtain c where c: "map_of (clients s) k = Some c" "ci_name c = n"
        using assms(1) by (auto simp: server_inv_def wf_names_def)
      with 2 assms(2) have "k \<noteq> fd" by auto
      with c show ?thesis by simp
    qed
  qed
  moreover have "wf_clients ?t"
    using assms(1) f by (auto simp: server_inv_def wf_clients_def split: if_splits)
  ultimately show ?thesis
    using assms(1) keys by (simp add: server_inv_def wf_rooms_def wf_threads_def wf_history_def)
qed

text \<open>Forgetting a client in both tables.\<close>

lemma server_inv_forget:
  assumes "server_inv s" and "map_of (clients s) fd = Some client"
  shows "server_inv (s\<lparr>name_to_socket := AList.delete (ci_name client) (name_to_socket s),
                       clients := AList.delete fd (clients s)\<rparr>)" (is "server_inv ?t")
proof -
  have "wf_names ?t" unfolding wf_names_def
  proof (intro conjI allI impI)
    show "distinct (map fst (name_to_socket ?t))"
      using assms(1) by (simp add: server_inv_def wf_names_def)
    fix n k
    assume "map_of (name_to_socket ?t) n = Some k"
    then have n: "n \<noteq> ci_name client" "map_of (name_to_socket s) n = Some k"
      by (auto split: if_splits)
    then obtain c where c: "map_of (clients s) k = Some c" "ci_name c = n"
      using assms(1) by (auto simp: server_inv_def wf_names_def)
    with n assms(2) have "k \<noteq> fd" by auto
    with c show "\<exists>c. map_of (clients ?t) k = Some c \<and> ci_name c = n" by simp
  qed
  have "wf_clients ?t"
    using assms(1) by (auto simp: server_inv_def wf_clients_def split: if_splits)
  have "fst ` set (clients ?t) \<subseteq> fst ` set (clients s)"
    by (auto simp: AList.delete_eq)
  from this clients_have_threads [OF assms(1)]
  have "fst ` set (clients ?t) \<subseteq> fst ` set (client_threads s)" by (rule subset_trans)
  then have "wf_threads ?t"
    using assms(1) unfolding server_inv_def wf_threads_def by simp
  moreover note \<open>wf_clients ?t\<close> \<open>wf_names ?t\<close>
  ultimately show ?thesis
    using assms(1) by (simp add: server_inv_def wf_rooms_def wf_history_def)
qed

subsection \<open>Consequences\<close>

lemma registered_client:
  assumes "server_inv s" and "map_of (name_to_socket s) n = Some fd"
  obtains c where "map_of (clients s) fd = Some c" and "ci_name c = n" and "socket_fd c = fd"
    and "0 \<le> fd"
proof -
  from assms obtain c where "map_of (clients s) fd = Some c" "ci_name c = n"
    unfolding server_inv_def wf_names_def by blast
  moreover from this assms(1) have "socket_fd c = fd" "0 \<le> fd"
    unfolding server_inv_def wf_clients_def by blast+
  ultimately show thesis by (rule that)
qed

lemma getClientByName_iff:
  assumes "server_inv s"
  shows "getClientByName n s = Some c \<longleftrightarrow>
     map_of (name_to_socket s) n = Some (socket_fd c) \<and> map_of (clients s) (socket_fd c) = Some c"
  using assms unfolding getClientByName_def getClientByNameUnlocked_def
  by (auto simp: server_inv_def wf_names_def wf_clients_def split: option.splits) blast?

lemma getClientByName_free:
  assumes "server_inv s"
  shows "getClientByName n s = None \<longleftrightarrow> map_of (name_to_socket s) n = None"
  using assms unfolding getClientByName_def getClientByNameUnlocked_def
  by (auto simp: server_inv_def wf_names_def split: option.splits)

subsection \<open>What ordinary handlers leave alone\<close>

text \<open>
  Most handlers change rooms, histories, flags of clients and the trace only. \<open>settled\<close> is
  the rest of the state; the collection \<open>settled\<close> has an equation for every operation that
  leaves it alone.
\<close>

named_theorems settled \<open>operations that change nothing but rooms, histories, flags and the trace\<close>

definition settled_part :: "server \<Rightarrow> _" where
  "settled_part s =
     (running s, map (\<lambda>(k, c). (k, ci_name c)) (clients s), name_to_socket s, client_threads s,
      exited s, next_thread s, users s, disk s, websocket_clients s)"

lemma settled_trace [settled]: "settled_part (s\<lparr>trace := t\<rparr>) = settled_part s"
  by (simp add: settled_part_def)

lemma settled_rooms [settled]: "settled_part (s\<lparr>rooms := t\<rparr>) = settled_part s"
  by (simp add: settled_part_def)

lemma settled_primitives [settled]:
  "settled_part (sendToSocket fd m s) = settled_part s"
  "settled_part (broadcast m s) = settled_part s"
  "settled_part (message_event cm s) = settled_part s"
  "settled_part (emit e s) = settled_part s"
  "settled_part (addMessageToHistory cm s) = settled_part s"
  by (simp_all add: primitive_eqs emit_def addMessageToHistory_def Let_def settled_part_def)

lemma settled_modify:
  "(\<And>c. ci_name (f c) = ci_name c) \<Longrightarrow> settled_part (modify_client fd f s) = settled_part s"
  by (auto simp: settled_part_def modify_client_def)

lemma settled_modifies [settled]:
  "settled_part (modify_client fd (\<lambda>c. c\<lparr>is_muted := b\<rparr>) s) = settled_part s"
  "settled_part (modify_client fd (\<lambda>c. c\<lparr>is_muted := b, mute_end_time := t\<rparr>) s) = settled_part s"
  "settled_part (modify_client fd (\<lambda>c. c\<lparr>current_room := r\<rparr>) s) = settled_part s"
  by (rule settled_modify; simp)+

lemma settledD:
  assumes "settled_part t = settled_part s"
  shows "running t = running s" and "name_to_socket t = name_to_socket s"
    and "client_threads t = client_threads s" and "exited t = exited s" and "users t = users s"
    and "disk t = disk s" and "map fst (clients t) = map fst (clients s)"
proof -
  have "map fst (map (\<lambda>(k, c). (k, ci_name c)) (clients s)) = map fst (clients s)" for s :: server
    by (simp add: case_prod_unfold comp_def)
  with assms show "map fst (clients t) = map fst (clients s)"
    unfolding settled_part_def by (metis prod.inject)
qed (use assms in \<open>simp_all add: settled_part_def\<close>)

definition settled_result :: "server \<Rightarrow> result \<Rightarrow> bool" where
  "settled_result s r = result_inv (\<lambda>t. settled_part t = settled_part s) r"

lemma settled_result_simps [simp]:
  "settled_result s (Inl (a, t)) = (settled_part t = settled_part s)"
  "settled_result s (Inr t) = (settled_part t = settled_part s)"
  by (simp_all add: settled_result_def)

lemma settled_result_try_call:
  "(\<And>x. r = Inr x \<Longrightarrow> settled_result s (f x)) \<Longrightarrow> settled_result s (try_call s r f)"
  by (cases r) simp_all

subsection \<open>A small server for the witnesses\<close>

text \<open>Two clients, \<open>ann\<close> logged in on descriptor 5 and an unnamed guest on 6.\<close>

definition sample_client :: "int \<Rightarrow> string \<Rightarrow> client_info" where
  "sample_client fd name = new_client\<lparr>socket_fd := fd, ci_name := name, is_logged_in := (name = ''ann'')\<rparr>"

definition sample_server :: server where
  "sample_server = (new_server Map.empty)
     \<lparr>running := True, clients := [(5, sample_client 5 ''ann''), (6, sample_client 6 ''Guest_6'')],
      name_to_socket := [(''ann'', 5)], client_threads := [(5, 0), (6, 1)], next_thread := 2\<rparr>"

lemma sample_server_simps [simp]:
  "running sample_server"
  "clients sample_server = [(5, sample_client 5 ''ann''), (6, sample_client 6 ''Guest_6'')]"
  "name_to_socket sample_server = [(''ann'', 5)]"
  "client_threads sample_server = [(5, 0), (6, 1)]"
  "exited sample_server = []" "next_thread sample_server = 2" "users sample_server = []"
  "rooms sample_server = []" "message_history sample_server = []"
  "room_message_history sample_server = []" "max_history_size sample_server = 1000"
  "websocket_broadcast_callback sample_server = False" "message_callback sample_server = False"
  "disk sample_server = Map.empty" "trace sample_server = []"
  by (simp_all add: sample_server_def new_server_def)

lemma sample_client_simps [simp]:
  "ci_name (sample_client fd n) = n" "socket_fd (sample_client fd n) = fd"
  "is_logged_in (sample_client fd n) = (n = ''ann'')" "\<not> is_admin (sample_client fd n)"
  "\<not> is_muted (sample_client fd n)" "current_room (sample_client fd n) = []"
  by (simp_all add: sample_client_def new_client_def)

lemma sample_server_inv: "server_inv sample_server"
  by (auto simp: server_inv_def wf_defs split: if_splits)

lemma sample_names [simp]:
  "getClientByName n sample_server = (if n = ''ann'' then Some (sample_client 5 ''ann'') else None)"
  "getClientByNameUnlocked n sample_server = (if n = ''ann'' then Some (sample_client 5 ''ann'') else None)"
  by (auto simp: getClientByName_def getClientByNameUnlocked_def)

lemma sample_words [simp]:
  "word ''ann''" "word ''bob''" "line_text ''pw''" "line_text ''no''" "line_text ''hi''"
  by (simp_all add: word_def line_text_def is_space_def)

text \<open>The state that a handler leaves, aborted or not.\<close>

definition result_state :: "result \<Rightarrow> server" where
  "result_state r = (case r of Inl (_, t) \<Rightarrow> t | Inr t \<Rightarrow> t)"

end
