(* ===== verification/Accounts.thy ===== *)
theory Accounts
  imports Invariant
begin

section \<open>Names and accounts: /login, /register, /nick, /users (src/server.cpp)\<close>

text \<open>
  The branches of \<open>handleCommand\<close> for names and passwords. A handler takes the environment
  of the line, the descriptor, the \<open>ClientInfo\<close> that \<open>handleClient\<close> looked up, and what is
  left of the command's stream behind the command word. The blocks under \<open>clients_mutex_\<close>
  that give a client its name are definitions of their own (\<open>login_block\<close>, \<open>nick_block\<close>).
\<close>

subsection \<open>The locked blocks\<close>

text \<open>
  \<open>client\<close> is the reference \<open>ClientInfo&\<close>, hence the current entry for \<open>fd\<close>. The handler
  runs only for a client that is in the table; without an entry there is nothing to write.
\<close>

definition login_block :: "int \<Rightarrow> string \<Rightarrow> server \<Rightarrow> server" where
  "login_block fd name s =
     (case getClientBySocket fd s of
        None \<Rightarrow> s
      | Some client \<Rightarrow>
          let s1 = s\<lparr>name_to_socket := AList.delete (ci_name client) (name_to_socket s)\<rparr>;
              s2 = modify_client fd (\<lambda>c. c\<lparr>ci_name := name, is_logged_in := True\<rparr>) s1;
              s3 = (if length (users s2) = 1
                    then modify_client fd (\<lambda>c. c\<lparr>is_admin := True\<rparr>) s2 else s2)
          in s3\<lparr>name_to_socket := AList.update name fd (name_to_socket s3)\<rparr>)"

definition nick_block :: "int \<Rightarrow> string \<Rightarrow> server \<Rightarrow> server" where
  "nick_block fd new_name s =
     (case getClientBySocket fd s of
        None \<Rightarrow> s
      | Some client \<Rightarrow>
          let s1 = s\<lparr>name_to_socket := AList.delete (ci_name client) (name_to_socket s)\<rparr>;
              s2 = modify_client fd (\<lambda>c. c\<lparr>ci_name := new_name\<rparr>) s1
          in s2\<lparr>name_to_socket := AList.update new_name fd (name_to_socket s2)\<rparr>)"

subsection \<open>/login\<close>

text \<open>What follows the checks: the name is taken, the client is told, and everybody is.\<close>

definition login_finish :: "int \<Rightarrow> string \<Rightarrow> server \<Rightarrow> server" where
  "login_finish fd name s =
     broadcast (encodeSystemMessage (name @ '' joined the chat''))
       (sendToSocket fd (encodeSuccess (''Logged in as '' @ name)) (login_block fd name s))"

text \<open>
  The check of the password. An existing account needs its password; a new name with a
  password becomes an account; a new name without one is a guest. The result says whether
  the login goes on, after the answer to the client and the change of \<open>users_\<close>.
\<close>

definition login_check :: "env \<Rightarrow> int \<Rightarrow> string \<Rightarrow> string \<Rightarrow> server \<Rightarrow> abort + bool \<times> server" where
  "login_check e fd name password s =
     (case map_of (users s) name of
        Some stored_password \<Rightarrow>
          if password = [] then
            Inr (False, sendToSocket fd (encodeError ''Password required for existing user'') s)
          else (case verifyPassword password stored_password of
                  Inl a \<Rightarrow> Inl a
                | Inr ok \<Rightarrow>
                    if \<not> ok then Inr (False, sendToSocket fd (encodeError ''Invalid password'') s)
                    else Inr (True, s))
      | None \<Rightarrow>
          if password \<noteq> [] then
            (case hashPassword (draw_salt e) password of
               Inl a \<Rightarrow> Inl a
             | Inr hashed_password \<Rightarrow>
                 Inr (True, s\<lparr>users := AList.update name hashed_password (users s)\<rparr>))
          else Inr (True, s))"

definition handle_login :: "env \<Rightarrow> int \<Rightarrow> string \<Rightarrow> server \<Rightarrow> result" where
  "handle_login e fd iss s =
     (let (name, iss1) = read_word iss;
          password = read_line iss1
      in if name = [] then
           Inr (sendToSocket fd
             (encodeError ''Usage: /login <name> [password] or /l <name> [password]'') s)
         else if getClientByName name s \<noteq> None then
           Inr (sendToSocket fd (encodeError ''Name already taken'') s)
         else try_call s (login_check e fd name password s)
                (\<lambda>(go_on, s1). Inr (if go_on then login_finish fd name s1 else s1)))"

subsection \<open>/register\<close>

text \<open>The program has this branch twice; the second copy is never reached.\<close>

definition handle_register :: "env \<Rightarrow> int \<Rightarrow> string \<Rightarrow> server \<Rightarrow> result" where
  "handle_register e fd iss s =
     (let (name, iss1) = read_word iss;
          password = read_line iss1
      in if name = [] \<or> password = [] then
           Inr (sendToSocket fd
             (encodeError ''Usage: /register <name> <password> or /r <name> <password>'') s)
         else if getClientByName name s \<noteq> None then
           Inr (sendToSocket fd (encodeError ''Name already in use'') s)
         else if map_of (users s) name \<noteq> None then
           Inr (sendToSocket fd (encodeError ''User already exists'') s)
         else try_call s (hashPassword (draw_salt e) password)
           (\<lambda>hashed_password.
              let s1 = s\<lparr>users := AList.update name hashed_password (users s)\<rparr>;
                  s2 = snd (saveUsers e ''users.txt'' s1);
                  s3 = sendToSocket fd
                         (encodeSuccess (''User registered successfully: '' @ name)) s2;
                  s4 = login_block fd name s3
              in Inr (broadcast (encodeSystemMessage (name @ '' joined the chat'')) s4)))"

subsection \<open>/users and /nick\<close>

definition handle_users :: "int \<Rightarrow> server \<Rightarrow> server" where
  "handle_users fd s =
     sendToSocket fd
       (encodeUserList (map (\<lambda>(_, c). ci_name c) (filter (\<lambda>(_, c). is_logged_in c) (clients s)))) s"

definition handle_nick :: "int \<Rightarrow> client_info \<Rightarrow> string \<Rightarrow> server \<Rightarrow> server" where
  "handle_nick fd client iss s =
     (let new_name = fst (read_word iss)
      in if new_name = [] then
           sendToSocket fd (encodeError ''Usage: /nick <name> or /n <name>'') s
         else if getClientByName new_name s \<noteq> None then
           sendToSocket fd (encodeError ''Name already taken'') s
         else
           let old_name = ci_name client;
               s1 = nick_block fd new_name s;
               s2 = sendToSocket fd (encodeSuccess (''Nickname changed to '' @ new_name)) s1
           in broadcast (encodeSystemMessage (old_name @ '' changed nickname to '' @ new_name)) s2)"

subsection \<open>The locked blocks as one update\<close>

lemma login_block_eq:
  assumes "map_of (clients s) fd = Some client"
  shows "login_block fd name s =
    s\<lparr>clients := map (\<lambda>(k, c). (k, if k = fd then
         c\<lparr>ci_name := name, is_logged_in := True, is_admin := is_admin c \<or> length (users s) = 1\<rparr>
         else c)) (clients s),
      name_to_socket := AList.update name fd (AList.delete (ci_name client) (name_to_socket s))\<rparr>"
  using assms
  by (intro server.equality)
     (auto simp: login_block_def getClientBySocket_def modify_client_def Let_def
       intro!: client_info.equality split: if_splits)

lemma nick_block_eq:
  assumes "map_of (clients s) fd = Some client"
  shows "nick_block fd name s =
    s\<lparr>clients := map (\<lambda>(k, c). (k, if k = fd then c\<lparr>ci_name := name\<rparr> else c)) (clients s),
      name_to_socket := AList.update name fd (AList.delete (ci_name client) (name_to_socket s))\<rparr>"
  using assms
  by (auto simp: nick_block_def getClientBySocket_def modify_client_def Let_def)

lemma block_absent:
  assumes "map_of (clients s) fd = None"
  shows "login_block fd name s = s" and "nick_block fd name s = s"
  using assms by (simp_all add: login_block_def nick_block_def getClientBySocket_def)

subsection \<open>The invariant\<close>

lemma server_inv_login_block [inv_intros]: "server_inv s \<Longrightarrow> server_inv (login_block fd name s)"
  by (cases "map_of (clients s) fd") (simp_all add: block_absent login_block_eq server_inv_rename)

lemma server_inv_nick_block [inv_intros]: "server_inv s \<Longrightarrow> server_inv (nick_block fd name s)"
  by (cases "map_of (clients s) fd") (simp_all add: block_absent nick_block_eq server_inv_rename)

lemma server_inv_login_finish [inv_intros]: "server_inv s \<Longrightarrow> server_inv (login_finish fd name s)"
  unfolding login_finish_def by (intro inv_intros)

lemma server_inv_login_check:
  "login_check e fd name password s = Inr (b, s') \<Longrightarrow> server_inv s \<Longrightarrow> server_inv s'"
  by (auto simp: login_check_def split: option.splits if_splits sum.splits intro: inv_intros)

lemma server_inv_saveUsers [inv_intros]: "server_inv s \<Longrightarrow> server_inv (snd (saveUsers e f s))"
  by (simp add: saveUsers_def)

lemma server_inv_login [inv_intros]: "server_inv s \<Longrightarrow> result_inv server_inv (handle_login e fd iss s)"
  by (auto simp: handle_login_def Let_def split: prod.split
      intro!: inv_intros dest: server_inv_login_check)

lemma server_inv_register [inv_intros]:
  "server_inv s \<Longrightarrow> result_inv server_inv (handle_register e fd iss s)"
  by (auto simp: handle_register_def Let_def split: prod.split intro!: inv_intros)

lemma server_inv_users_cmd [inv_intros]: "server_inv s \<Longrightarrow> server_inv (handle_users fd s)"
  unfolding handle_users_def by (intro inv_intros)

lemma server_inv_nick [inv_intros]: "server_inv s \<Longrightarrow> server_inv (handle_nick fd client iss s)"
  by (auto simp: handle_nick_def Let_def intro!: inv_intros)

lemma settled_users [settled]: "settled_part (handle_users fd s) = settled_part s"
  by (simp add: handle_users_def settled)

subsection \<open>Properties\<close>

lemma login_check_settles:
  "login_check e fd name password s = Inr (True, s') \<Longrightarrow> clients s' = clients s \<and> name_to_socket s' = name_to_socket s"
  by (auto simp: login_check_def split: option.splits if_splits sum.splits)

lemma login_account_eq:
  assumes "word name" and "line_text password"
    and "map_of (users s) name = Some h" and "hashPassword draw q = Inr h"
    and "getClientByName name s = None"
  shows "handle_login e fd ('' '' @ name @ '' '' @ password) s =
    Inr (if password = q then login_finish fd name s
         else sendToSocket fd (encodeError ''Invalid password'') s)"
  using assms verify_hashPassword [OF assms(4), of password]
  by (auto simp: handle_login_def login_check_def string_ops line_text_def Let_def)

lemma login_finish_trace:
  "map_of (clients s) fd = Some c \<Longrightarrow>
     trace (login_finish fd name s) = trace s @ Send fd (encodeSuccess (''Logged in as '' @ name))
         # broadcast_events (encodeSystemMessage (name @ '' joined the chat'')) s"
  by (simp add: login_finish_def login_block_eq handler_defs broadcast_events_fds)

lemma login_finish_tables:
  assumes "map_of (clients s) fd = Some c"
  shows "map_of (clients (login_finish fd name s)) =
       (map_of (clients s))(fd \<mapsto> c\<lparr>ci_name := name, is_logged_in := True,
          is_admin := is_admin c \<or> length (users s) = 1\<rparr>)"
    and "map_of (name_to_socket (login_finish fd name s)) =
       ((map_of (name_to_socket s))(ci_name c := None))(name \<mapsto> fd)"
    and "users (login_finish fd name s) = users s"
  using assms by (auto simp: login_finish_def login_block_eq handler_defs fun_eq_iff)

text \<open>C16: Logging in to an account needs its password: for a name that has an account and is not
  in use, \<open>/login name password\<close> gives the client the name exactly when the password is the
  one the account was made with; otherwise the client gets an error and nothing changes.\<close>

theorem login_needs_password:
  assumes "word name" and "line_text password"
    and "map_of (users s) name = Some h" and "hashPassword draw q = Inr h"
    and "getClientByName name s = None"
  shows "handle_login e fd ('' '' @ name @ '' '' @ password) s =
    Inr (if password = q then login_finish fd name s
         else sendToSocket fd (encodeError ''Invalid password'') s)"
  using assms by (rule login_account_eq)

theorem login_needs_password_witness:
  "\<exists>h. hashPassword (\<lambda>i. 7) ''pw'' = Inr h \<and>
     handle_login sample_env 6 ('' '' @ ''bob'' @ '' '' @ ''no'') (sample_server\<lparr>users := [(''bob'', h)]\<rparr>) =
     Inr (sendToSocket 6 (encodeError ''Invalid password'') (sample_server\<lparr>users := [(''bob'', h)]\<rparr>))"
proof -
  obtain h where h: "hashPassword (\<lambda>i. 7) ''pw'' = Inr h" using hashPassword_eq by blast
  show ?thesis
    using login_needs_password [of "''bob''" "''no''" "sample_server\<lparr>users := [(''bob'', h)]\<rparr>" h _ "''pw''" sample_env 6] h
    by (simp add: getClientByName_def getClientByNameUnlocked_def)
qed

text \<open>C19: What a successful login does: the name leads to the client, the client carries it and
  is logged in, it becomes an administrator exactly when there is one account or it was one
  before, its previous name is free, every other client and name is as before, the client is
  told first, and then every client.\<close>

theorem login_effect:
  assumes "map_of (clients s) fd = Some c"
  shows "map_of (clients (login_finish fd name s)) =
            (map_of (clients s))(fd \<mapsto> c\<lparr>ci_name := name, is_logged_in := True,
               is_admin := is_admin c \<or> length (users s) = 1\<rparr>)
     \<and> map_of (name_to_socket (login_finish fd name s)) =
            ((map_of (name_to_socket s))(ci_name c := None))(name \<mapsto> fd)
     \<and> trace (login_finish fd name s) = trace s @ Send fd (encodeSuccess (''Logged in as '' @ name))
         # broadcast_events (encodeSystemMessage (name @ '' joined the chat'')) s"
  using login_finish_tables [OF assms] login_finish_trace [OF assms] by simp

theorem login_effect_witness:
  "trace (login_finish 6 ''bob'' sample_server) =
     [Send 6 (encodeSuccess (''Logged in as '' @ ''bob'')),
      Send 5 (encodeSystemMessage (''bob'' @ '' joined the chat'')),
      Send 6 (encodeSystemMessage (''bob'' @ '' joined the chat''))]
   \<and> map_of (name_to_socket (login_finish 6 ''bob'' sample_server)) = [''ann'' \<mapsto> 5, ''bob'' \<mapsto> 6]"
  using login_effect [of sample_server 6 "sample_client 6 ''Guest_6''" "''bob''"]
  by (simp add: broadcast_events_def fun_eq_iff)

text \<open>C18: Registration: for a free name without an account, \<open>/register\<close> stores an account that
  accepts exactly the given password, writes users.txt with all accounts, and logs the client
  in under the name.\<close>

theorem register_effect:
  assumes "word name" and "line_text password"
    and "map_of (users s) name = None" and "getClientByName name s = None"
    and "can_write e ''users.txt''" and "map_of (clients s) fd = Some c"
  shows "\<exists>s' h. handle_register e fd ('' '' @ name @ '' '' @ password) s = Inr s'
     \<and> users s' = users s @ [(name, h)] \<and> verifyPassword p h = Inr (p = password)
     \<and> disk s' ''users.txt'' = Some (concat (map user_line (users s')))
     \<and> map_of (name_to_socket s') name = Some fd
     \<and> map_of (clients s') fd = Some (c\<lparr>ci_name := name, is_logged_in := True,
            is_admin := is_admin c \<or> users s = []\<rparr>)"
proof -
  obtain h where h: "hashPassword (draw_salt e) password = Inr h" using hashPassword_eq by blast
  show ?thesis
    using assms h verify_hashPassword [OF h, of p]
    by (auto simp: handle_register_def string_ops line_text_def Let_def handler_defs saveUsers_def
        login_block_eq update_absent)
qed

theorem register_effect_witness:
  "\<exists>s' h. handle_register sample_env 6 ('' '' @ ''bob'' @ '' '' @ ''pw'') sample_server = Inr s'
     \<and> users s' = [(''bob'', h)] \<and> verifyPassword ''no'' h = Inr False"
  using register_effect [of "''bob''" "''pw''" sample_server sample_env 6 "sample_client 6 ''Guest_6''" "''no''"]
  by (auto simp: sample_env_def)

text \<open>A name that is in use cannot be taken: for a name that leads to a connected client,
  \<open>/login\<close>, \<open>/register\<close> and \<open>/nick\<close> of any client only send an error.\<close>

theorem name_in_use_refused:
  assumes "word name" and "line_text password" and "getClientByName name s = Some owner"
  shows "handle_login e fd ('' '' @ name @ '' '' @ password) s =
           Inr (sendToSocket fd (encodeError ''Name already taken'') s)
     \<and> handle_register e fd ('' '' @ name @ '' '' @ password) s =
           Inr (sendToSocket fd (encodeError ''Name already in use'') s)
     \<and> handle_nick fd client ('' '' @ name) s =
           sendToSocket fd (encodeError ''Name already taken'') s"
  using assms
  by (auto simp: handle_login_def handle_register_def handle_nick_def string_ops line_text_def Let_def)

theorem name_in_use_refused_witness:
  "handle_nick 6 (sample_client 6 ''Guest_6'') ('' '' @ ''ann'') sample_server =
     sendToSocket 6 (encodeError ''Name already taken'') sample_server"
  using name_in_use_refused [of "''ann''" "''pw''" sample_server "sample_client 5 ''ann''"
      sample_env 6 "sample_client 6 ''Guest_6''"]
  by simp

end
