(* ===== verification/Rooms.thy ===== *)
theory Rooms
  imports Invariant
begin

section \<open>Chat rooms: /createroom, /joinroom, /leaveroom, /rooms, /roommembers (src/server.cpp)\<close>

text \<open>
  The branches of \<open>handleCommand\<close> for rooms, and the delivery of a message to the members
  of a room, which several handlers share.
\<close>

definition handle_createroom ::
  "env \<Rightarrow> int \<Rightarrow> client_info \<Rightarrow> string \<Rightarrow> server \<Rightarrow> result" where
  "handle_createroom e fd client iss s =
     (let (rname, iss1) = read_word iss;
          (private_flag, iss2) = read_word iss1;
          password = fst (read_word iss2)
      in if rname = [] then
           Inr (sendToSocket fd (encodeError
             ''Usage: /createroom <name> [private] [password] or /cr <name> [private] [password]'') s)
         else
           let is_priv = (private_flag = ''private'' \<or> private_flag = ''1'')
           in if map_of (rooms s) rname \<noteq> None then
                Inr (sendToSocket fd (encodeError (''Room already exists: '' @ rname)) s)
              else try_call s
                (if is_priv \<and> password \<noteq> [] then hashPassword (draw_salt e) password else Inr [])
                (\<lambda>pass.
                   let room = \<lparr>room_name = rname, creator = ci_name client,
                               members = [ci_name client], create_time = clock e,
                               is_private = is_priv, room_password = pass\<rparr>;
                       s1 = s\<lparr>rooms := AList.update rname room (rooms s)\<rparr>;
                       s2 = modify_client fd (\<lambda>c. c\<lparr>current_room := rname\<rparr>) s1;
                       s3 = sendToSocket fd
                              (encodeSuccess (''Room created successfully: '' @ rname)) s2
                   in Inr (broadcast (encodeSystemMessage
                        (''Room created: '' @ rname @ '' by '' @ ci_name client)) s3)))"

text \<open>
  The admission check of \<open>/joinroom\<close> against the copy of the room the handler has made:
  \<open>Some\<close> text is the answer that refuses.
\<close>

definition join_refusal :: "chat_room \<Rightarrow> string \<Rightarrow> abort + string option" where
  "join_refusal room password =
     (if is_private room then
        (if password = [] then Inr (Some ''Password required for private room'')
         else case verifyPassword password (room_password room) of
                Inl a \<Rightarrow> Inl a
              | Inr ok \<Rightarrow> Inr (if ok then None else Some ''Invalid password for room''))
      else Inr None)"

definition handle_joinroom :: "int \<Rightarrow> client_info \<Rightarrow> string \<Rightarrow> server \<Rightarrow> result" where
  "handle_joinroom fd client iss s =
     (let (rname, iss1) = read_word iss;
          password = read_line iss1
      in if rname = [] then
           Inr (sendToSocket fd (encodeError
             ''Usage: /joinroom <name> [password] or /jr <name> [password]'') s)
         else case map_of (rooms s) rname of
           None \<Rightarrow> Inr (sendToSocket fd (encodeError (''Room not found: '' @ rname)) s)
         | Some room \<Rightarrow>
             try_call s (join_refusal room password)
               (\<lambda>refusal. case refusal of
                  Some text \<Rightarrow> Inr (sendToSocket fd (encodeError text) s)
                | None \<Rightarrow>
                    if ci_name client \<in> set (members room) then
                      Inr (sendToSocket fd (encodeError (''Already in room: '' @ rname)) s)
                    else
                      let s1 = s\<lparr>rooms := AList.update rname
                                   (room\<lparr>members := members room @ [ci_name client]\<rparr>) (rooms s)\<rparr>;
                          s2 = modify_client fd (\<lambda>c. c\<lparr>current_room := rname\<rparr>) s1;
                          s3 = sendToSocket fd (encodeSuccess (''Joined room: '' @ rname)) s2
                      in Inr (broadcast (encodeSystemMessage
                           (ci_name client @ '' joined room: '' @ rname)) s3)))"

text \<open>
  Taking a member out of a room, in \<open>/leaveroom\<close> and \<open>/quit\<close>: \<open>std::remove\<close> drops every
  occurrence of the name, and a room without members is erased.
\<close>

definition remove_member :: "string \<Rightarrow> string \<Rightarrow> server \<Rightarrow> server" where
  "remove_member rname name s =
     (case map_of (rooms s) rname of
        None \<Rightarrow> s
      | Some room \<Rightarrow>
          let ms = filter (\<lambda>m. m \<noteq> name) (members room)
          in if ms = [] then s\<lparr>rooms := AList.delete rname (rooms s)\<rparr>
             else s\<lparr>rooms := AList.update rname (room\<lparr>members := ms\<rparr>) (rooms s)\<rparr>)"

definition handle_leaveroom :: "int \<Rightarrow> client_info \<Rightarrow> server \<Rightarrow> server" where
  "handle_leaveroom fd client s =
     (let rname = current_room client
      in if rname = [] then sendToSocket fd (encodeError ''Not in any room'') s
         else
           let s1 = remove_member rname (ci_name client) s;
               s2 = modify_client fd (\<lambda>c. c\<lparr>current_room := []\<rparr>) s1;
               s3 = sendToSocket fd (encodeSuccess (''Left room: '' @ rname)) s2
           in broadcast (encodeSystemMessage (ci_name client @ '' left room: '' @ rname)) s3)"

definition handle_rooms :: "int \<Rightarrow> server \<Rightarrow> server" where
  "handle_rooms fd s = sendToSocket fd (encodeRoomList (map fst (rooms s))) s"

definition handle_roommembers :: "int \<Rightarrow> client_info \<Rightarrow> server \<Rightarrow> server" where
  "handle_roommembers fd client s =
     (let rname = current_room client
      in if rname = [] then sendToSocket fd (encodeError ''Not in any room'') s
         else sendToSocket fd (encodeRoomMembers rname
                (case map_of (rooms s) rname of Some room \<Rightarrow> members room | None \<Rightarrow> [])) s)"

subsection \<open>Delivery to the members of a room\<close>

text \<open>
  The descriptors of the members that are registered under their name, in the order of the
  member list; and the loop that writes to each member found.
\<close>

definition member_sockets :: "string \<Rightarrow> server \<Rightarrow> int list" where
  "member_sockets rname s =
     (case map_of (rooms s) rname of
        None \<Rightarrow> []
      | Some room \<Rightarrow> List.map_filter (map_of (name_to_socket s)) (members room))"

definition send_to_members :: "chat_room \<Rightarrow> string \<Rightarrow> server \<Rightarrow> server" where
  "send_to_members room message s =
     foldl (\<lambda>s member. case map_of (name_to_socket s) member of
                          Some fd \<Rightarrow> sendToSocket fd message s
                        | None \<Rightarrow> s) s (members room)"

definition send_to_sockets :: "int list \<Rightarrow> string \<Rightarrow> server \<Rightarrow> server" where
  "send_to_sockets fds message s = foldl (\<lambda>s fd. sendToSocket fd message s) s fds"

lemma send_to_sockets_eq:
  "send_to_sockets fds m s = s\<lparr>trace := trace s @ map (\<lambda>fd. Send fd m) fds\<rparr>"
  unfolding send_to_sockets_def by (induction fds arbitrary: s) (auto simp: sendToSocket_eq)

lemma send_to_members_eq:
  "send_to_members room m s = send_to_sockets (List.map_filter (map_of (name_to_socket s)) (members room)) m s"
proof -
  have "foldl (\<lambda>s member. case map_of (name_to_socket s) member of
                          Some fd \<Rightarrow> sendToSocket fd m s
                        | None \<Rightarrow> s) s ms =
        send_to_sockets (List.map_filter (map_of (name_to_socket s)) ms) m s" for ms
  proof (induction ms arbitrary: s)
    case (Cons a ms)
    then show ?case
      by (simp add: List.map_filter_simps send_to_sockets_def sendToSocket_eq split: option.split)
  qed (simp add: send_to_sockets_def List.map_filter_simps)
  then show ?thesis by (simp add: send_to_members_def)
qed

lemmas delivery_eqs = send_to_sockets_eq send_to_members_eq

declare delivery_eqs [handler_defs]

subsection \<open>The invariant\<close>

lemma server_inv_delivery [inv_intros]:
  "server_inv s \<Longrightarrow> server_inv (send_to_sockets fds m s)"
  "server_inv s \<Longrightarrow> server_inv (send_to_members room m s)"
  by (simp_all add: delivery_eqs)

lemma server_inv_put_room:
  assumes "server_inv s" and "wf_room r room"
  shows "server_inv (s\<lparr>rooms := AList.update r room (rooms s)\<rparr>)"
  using assms by (simp add: server_inv_def wf_defs)

lemma server_inv_delete_room:
  assumes "server_inv s"
  shows "server_inv (s\<lparr>rooms := AList.delete r (rooms s)\<rparr>)"
  using assms by (auto simp: server_inv_def wf_defs)

lemma known_room: "server_inv s \<Longrightarrow> map_of (rooms s) r = Some room \<Longrightarrow> wf_room r room"
  by (simp add: server_inv_def wf_rooms_def)

lemma server_inv_remove_member [inv_intros]:
  assumes "server_inv s"
  shows "server_inv (remove_member r name s)"
proof (cases "map_of (rooms s) r")
  case (Some room)
  with assms have "wf_room r room" by (rule known_room)
  then have "wf_room r (room\<lparr>members := filter (\<lambda>m. m \<noteq> name) (members room)\<rparr>)"
    if "filter (\<lambda>m. m \<noteq> name) (members room) \<noteq> []"
    using that by (simp add: wf_room_def)
  with assms show ?thesis
    by (simp add: remove_member_def Some Let_def server_inv_put_room server_inv_delete_room)
qed (simp add: remove_member_def assms)

lemma server_inv_createroom [inv_intros]:
  assumes "server_inv s"
  shows "result_inv server_inv (handle_createroom e fd client iss s)"
proof -
  have room_ok: "wf_room r \<lparr>room_name = r, creator = n, members = [n], create_time = t, is_private = p,
                   room_password = h\<rparr>"
    if "h = [] \<or> wf_hash h" for r n t p h
    using that by (simp add: wf_room_def)
  with assms show ?thesis
    by (auto simp: handle_createroom_def Let_def split: prod.split
        intro!: inv_intros server_inv_put_room room_ok dest: wf_hash_hashPassword)
qed

lemma server_inv_joinroom [inv_intros]:
  assumes "server_inv s"
  shows "result_inv server_inv (handle_joinroom fd client iss s)"
proof -
  have room_ok: "wf_room r (room\<lparr>members := members room @ [n]\<rparr>)"
    if "map_of (rooms s) r = Some room" "n \<notin> set (members room)" for r room n
    using that known_room [OF assms that(1)] by (simp add: wf_room_def)
  with assms show ?thesis
    by (auto simp: handle_joinroom_def Let_def split: prod.split option.split
        intro!: inv_intros server_inv_put_room room_ok)
qed

lemma server_inv_leaveroom [inv_intros]: "server_inv s \<Longrightarrow> server_inv (handle_leaveroom fd client s)"
  by (auto simp: handle_leaveroom_def Let_def intro!: inv_intros)

lemma server_inv_rooms_cmd [inv_intros]:
  "server_inv s \<Longrightarrow> server_inv (handle_rooms fd s)"
  "server_inv s \<Longrightarrow> server_inv (handle_roommembers fd client s)"
  by (auto simp: handle_rooms_def handle_roommembers_def Let_def intro!: inv_intros)

subsection \<open>The settled part\<close>

lemma settled_delivery [settled]:
  "settled_part (send_to_sockets fds m s) = settled_part s"
  "settled_part (send_to_members room m s) = settled_part s"
  by (simp_all add: delivery_eqs settled)

lemma settled_remove_member [settled]: "settled_part (remove_member r n s) = settled_part s"
  by (simp add: remove_member_def Let_def settled split: option.split)

lemma settled_room_commands [settled]:
  "settled_part (handle_leaveroom fd client s) = settled_part s"
  "settled_part (handle_rooms fd s) = settled_part s"
  "settled_part (handle_roommembers fd client s) = settled_part s"
  by (simp_all add: handle_leaveroom_def handle_rooms_def handle_roommembers_def Let_def settled)

lemma settled_room_results [settled]:
  "settled_result s (handle_createroom e fd client iss s)"
  "settled_result s (handle_joinroom fd client iss s)"
  by (auto simp: handle_createroom_def handle_joinroom_def Let_def settled
      split: prod.split option.split intro!: settled_result_try_call)

subsection \<open>Properties\<close>

text \<open>C23: A private room admits by its password only: a client that is not a member joins a
  private room (its name appended to the members, the room its current one, no other room or
  client changed) exactly when it gives the password the room was created with; otherwise it
  gets an error and nothing changes.\<close>

theorem private_room_admission:
  assumes "word r" and "line_text password"
    and "map_of (rooms s) r = Some room" and "is_private room"
    and "hashPassword draw q = Inr (room_password room)" and "ci_name client \<notin> set (members room)"
  shows "\<exists>s'. handle_joinroom fd client ('' '' @ r @ '' '' @ password) s = Inr s' \<and>
    (if password = q then
       map_of (rooms s') = (map_of (rooms s))(r \<mapsto> room\<lparr>members := members room @ [ci_name client]\<rparr>)
       \<and> map_of (clients s') = (map_of (clients s))
            (fd := map_option (\<lambda>c. c\<lparr>current_room := r\<rparr>) (map_of (clients s) fd))
     else s' = sendToSocket fd (encodeError ''Invalid password for room'') s)"
  using assms verify_hashPassword [OF assms(5), of password]
  by (auto simp: handle_joinroom_def join_refusal_def string_ops line_text_def Let_def handler_defs
      fun_eq_iff)

definition sample_room :: "string \<Rightarrow> chat_room" where
  "sample_room pass =
     \<lparr>room_name = ''bob'', creator = ''ann'', members = [''ann''], create_time = 1, is_private = True,
      room_password = pass\<rparr>"

theorem private_room_admission_witness:
  "\<exists>h. \<exists>s'. handle_joinroom 6 (sample_client 6 ''Guest_6'') ('' '' @ ''bob'' @ '' '' @ ''pw'')
        (sample_server\<lparr>rooms := [(''bob'', sample_room h)]\<rparr>) = Inr s'
      \<and> map_of (rooms s') ''bob'' = Some ((sample_room h)\<lparr>members := [''ann'', ''Guest_6'']\<rparr>)"
proof -
  obtain h where h: "hashPassword (\<lambda>i. 7) ''pw'' = Inr h" using hashPassword_eq by blast
  let ?s = "sample_server\<lparr>rooms := [(''bob'', sample_room h)]\<rparr>"
  have "\<exists>s'. handle_joinroom 6 (sample_client 6 ''Guest_6'') ('' '' @ ''bob'' @ '' '' @ ''pw'') ?s = Inr s'
      \<and> map_of (rooms s') ''bob'' = Some ((sample_room h)\<lparr>members := [''ann'', ''Guest_6'']\<rparr>)"
    using private_room_admission [of "''bob''" "''pw''" ?s
        "sample_room h" "\<lambda>i. 7" "''pw''" "sample_client 6 ''Guest_6''" 6] h
    by (auto simp: sample_room_def)
  then show ?thesis by blast
qed

text \<open>A private room that was created without a password is closed to everybody: whatever a
  client gives as the password, it is refused with an error and nothing changes.\<close>

theorem private_room_without_password_is_closed:
  assumes "fst (read_word iss) = r" and "r \<noteq> []" and "map_of (rooms s) r = Some room"
    and "is_private room" and "room_password room = []"
  shows "handle_joinroom fd client iss s = Inr (sendToSocket fd (encodeError
    (if read_line (snd (read_word iss)) = [] then ''Password required for private room''
     else ''Invalid password for room'')) s)"
  using assms verify_no_colon [of "[]"]
  by (auto simp: handle_joinroom_def join_refusal_def Let_def split: prod.split)

theorem private_room_without_password_is_closed_witness:
  "handle_joinroom 6 (sample_client 6 ''Guest_6'') '' bob pw'' (sample_server\<lparr>rooms := [(''bob'', sample_room [])]\<rparr>) =
     Inr (sendToSocket 6 (encodeError ''Invalid password for room'')
       (sample_server\<lparr>rooms := [(''bob'', sample_room [])]\<rparr>))"
proof -
  have w: "read_word '' bob pw'' = (''bob'', '' pw'')" "read_line '' pw'' = ''pw''"
    using read_two [of "''bob''" "''pw''"] by simp_all
  show ?thesis
    using private_room_without_password_is_closed [of "'' bob pw''" "''bob''"
        "sample_server\<lparr>rooms := [(''bob'', sample_room [])]\<rparr>" "sample_room []" 6
        "sample_client 6 ''Guest_6''"] w
    by (simp add: sample_room_def)
qed

text \<open>C26: Leaving a room takes exactly the leaver off its member list, deletes the room when the
  leaver was its only member, changes no other room, and leaves the client without a room.\<close>

theorem leaveroom_effect:
  assumes "server_inv s" and "current_room client = r" and "r \<noteq> []"
    and "map_of (rooms s) r = Some room"
  shows "map_of (rooms (handle_leaveroom fd client s)) =
      (map_of (rooms s))(r :=
         if members room = [ci_name client] then None
         else Some (room\<lparr>members := remove1 (ci_name client) (members room)\<rparr>))
    \<and> map_of (clients (handle_leaveroom fd client s)) =
      (map_of (clients s))(fd := map_option (\<lambda>c. c\<lparr>current_room := []\<rparr>) (map_of (clients s) fd))"
proof -
  have room: "members room \<noteq> []" "distinct (members room)"
    using known_room [OF assms(1,4)] by (simp_all add: wf_room_def)
  have rem: "filter (\<lambda>m. m \<noteq> ci_name client) (members room) = remove1 (ci_name client) (members room)"
    using room(2) by (simp add: distinct_remove1_removeAll removeAll_filter_not_eq neq_commute)
  have empty: "remove1 (ci_name client) (members room) = [] \<longleftrightarrow> members room = [ci_name client]"
    using room by (cases "members room"; cases "tl (members room)") auto
  show ?thesis
    using assms(2-4)
    by (auto simp: handle_leaveroom_def remove_member_def Let_def handler_defs rem empty fun_eq_iff)
qed

lemma sample_room_inv: "server_inv (sample_server\<lparr>rooms := [(''bob'', sample_room [])]\<rparr>)"
  using sample_server_inv
  by (auto simp: server_inv_def wf_defs wf_room_def sample_room_def split: if_splits)

theorem leaveroom_effect_witness:
  "map_of (rooms (handle_leaveroom 5 ((sample_client 5 ''ann'')\<lparr>current_room := ''bob''\<rparr>)
      (sample_server\<lparr>rooms := [(''bob'', sample_room [])]\<rparr>))) ''bob'' = None"
  using leaveroom_effect [OF sample_room_inv, of "(sample_client 5 ''ann'')\<lparr>current_room := ''bob''\<rparr>"
      "''bob''" "sample_room []" 5]
  by (simp add: sample_room_def)

text \<open>Creating a room: for a new room name the creator becomes its only member and the room
  its current one; the room is private exactly when asked for, and then its password accepts
  exactly the word that was given.\<close>

theorem createroom_effect:
  assumes "word r" and "word password" and "map_of (rooms s) r = None"
  shows "\<exists>s' h. handle_createroom e fd client ('' '' @ r @ '' private '' @ password) s = Inr s'
    \<and> map_of (rooms s') = (map_of (rooms s))(r \<mapsto>
         \<lparr>room_name = r, creator = ci_name client, members = [ci_name client],
          create_time = clock e, is_private = True, room_password = h\<rparr>)
    \<and> verifyPassword p h = Inr (p = password)
    \<and> map_of (clients s') = (map_of (clients s))
         (fd := map_option (\<lambda>c. c\<lparr>current_room := r\<rparr>) (map_of (clients s) fd))"
proof -
  obtain h where h: "hashPassword (draw_salt e) password = Inr h" using hashPassword_eq by blast
  have priv: "word ''private''" by (simp add: word_def is_space_def)
  have w1: "read_word ('' '' @ r @ '' private '' @ password) = (r, '' private '' @ password)"
    and w2: "read_word ('' private '' @ password) = (''private'', '' '' @ password)"
    and w3: "read_word ('' '' @ password) = (password, [])"
    using assms(1,2) read_word_append [OF priv, of "CHR '' ''" password] by (simp_all add: string_ops)
  show ?thesis
    using assms h verify_hashPassword [OF h, of p]
    unfolding handle_createroom_def w1 prod.case Let_def w2 w3
    by (auto simp: handler_defs fun_eq_iff word_def)
qed

theorem createroom_effect_witness:
  "\<exists>s' h. handle_createroom sample_env 5 (sample_client 5 ''ann'') ('' '' @ ''bob'' @ '' private '' @ ''ann'')
      sample_server = Inr s' \<and> verifyPassword ''pw'' h = Inr False
      \<and> map_of (rooms s') ''bob'' = Some
         \<lparr>room_name = ''bob'', creator = ''ann'', members = [''ann''], create_time = 1000,
          is_private = True, room_password = h\<rparr>"
  using createroom_effect [of "''bob''" "''ann''" sample_server sample_env 5 "sample_client 5 ''ann''" "''pw''"]
  by (auto simp: sample_env_def)

end
