(* ===== verification/Messaging.thy ===== *)
theory Messaging
  imports Rooms
begin

section \<open>Chat messages: MSG lines, plain text, /whisper, the histories (src/server.cpp)\<close>

text \<open>
  The two branches of \<open>handleClient\<close> that carry chat (an encoded \<open>MSG\<close> line and plain
  text), and the branches of \<open>handleCommand\<close> that send or list messages.
\<close>

text \<open>
  The mute check of both branches. The first component says whether the message goes on; an
  expired mute is lifted.
\<close>

definition mute_gate :: "env \<Rightarrow> int \<Rightarrow> client_info \<Rightarrow> server \<Rightarrow> bool \<times> server" where
  "mute_gate e fd client s =
     (if is_muted client then
        (if clock e > mute_end_time client then (True, modify_client fd (\<lambda>c. c\<lparr>is_muted := False\<rparr>) s)
         else (False, sendToSocket fd
                 (encodeError ''You are muted. Please wait until the mute period ends.'') s))
      else (True, s))"

definition login_first :: "int \<Rightarrow> server \<Rightarrow> server" where
  "login_first fd s = sendToSocket fd (encodeError ''Please login first using /login <name>'') s"

subsection \<open>MSG lines\<close>

text \<open>
  Routing by the decoded type: a private message and a room message are forwarded as the
  line that came in, a message of any other type is encoded again and broadcast.
\<close>

definition route_msg :: "int \<Rightarrow> string \<Rightarrow> chat_message \<Rightarrow> server \<Rightarrow> server" where
  "route_msg fd message m s =
     (if msg_type m = PRIVATE then
        (let s1 = (case getClientByNameUnlocked (receiver m) s of
                     Some target \<Rightarrow> sendToSocket (socket_fd target) message s
                   | None \<Rightarrow>
                       sendToSocket fd (encodeError (''User '' @ receiver m @ '' not found'')) s)
         in addMessageToHistory m s1)
      else if msg_type m = ROOM_MESSAGE then
        (case map_of (rooms s) (receiver m) of
           Some room \<Rightarrow> addMessageToHistory m (send_to_members room message s)
         | None \<Rightarrow> sendToSocket fd (encodeError (''Room '' @ receiver m @ '' not found'')) s)
      else addMessageToHistory m (broadcast (encode m) s))"

definition handle_msg :: "env \<Rightarrow> int \<Rightarrow> string \<Rightarrow> server \<Rightarrow> server" where
  "handle_msg e fd message s =
     (case decode (clock e) message of
        None \<Rightarrow> sendToSocket fd (encodeError ''Invalid message format'') s
      | Some m \<Rightarrow>
          (case getClientBySocket fd s of
             None \<Rightarrow> login_first fd s
           | Some client \<Rightarrow>
               if \<not> is_logged_in client then login_first fd s
               else case mute_gate e fd client s of
                 (go_on, s1) \<Rightarrow>
                   if go_on then message_event m (route_msg fd message m s1) else s1))"

subsection \<open>Plain text\<close>

text \<open>
  The message that the server builds itself: \<open>text\<close> with its emojis, the sender's name, the
  clock and a random identifier.
\<close>

definition own_message :: "env \<Rightarrow> string \<Rightarrow> string \<Rightarrow> msg_type \<Rightarrow> string \<Rightarrow> chat_message" where
  "own_message e sndr rcvr ty text =
     new_message\<lparr>sender := sndr, receiver := rcvr, content := replaceEmojis (emojis e) text,
       msg_type := ty, timestamp := clock e, message_id := generateRandomId (draw_id e) 16\<rparr>"

definition say :: "env \<Rightarrow> int \<Rightarrow> client_info \<Rightarrow> string \<Rightarrow> server \<Rightarrow> server" where
  "say e fd client message s =
     (if current_room client \<noteq> [] then
        (let m = own_message e (ci_name client) (current_room client) ROOM_MESSAGE message
         in case map_of (rooms s) (current_room client) of
              Some room \<Rightarrow>
                message_event m (addMessageToHistory m (send_to_members room (encode m) s))
            | None \<Rightarrow>
                sendToSocket fd (encodeError (''Room '' @ current_room client @ '' not found'')) s)
      else
        (let m = own_message e (ci_name client) [] BROADCAST message
         in broadcast (encode m) (message_event m (addMessageToHistory m s))))"

definition handle_text :: "env \<Rightarrow> int \<Rightarrow> string \<Rightarrow> server \<Rightarrow> server" where
  "handle_text e fd message s =
     (case getClientBySocket fd s of
        None \<Rightarrow> login_first fd s
      | Some client \<Rightarrow>
          if \<not> is_logged_in client then login_first fd s
          else case mute_gate e fd client s of
            (go_on, s1) \<Rightarrow> if go_on then say e fd client message s1 else s1)"

subsection \<open>/whisper\<close>

definition handle_whisper :: "env \<Rightarrow> int \<Rightarrow> client_info \<Rightarrow> string \<Rightarrow> server \<Rightarrow> server" where
  "handle_whisper e fd client iss s =
     (let (target_name, iss1) = read_word iss;
          msg = read_line iss1
      in if target_name = [] \<or> msg = [] then
           sendToSocket fd
             (encodeError ''Usage: /whisper <name> <message> or /w <name> <message>'') s
         else
           let target_socket = (case getClientByNameUnlocked target_name s of
                                  Some target \<Rightarrow> socket_fd target
                                | None \<Rightarrow> -1)
           in if target_socket = -1 then
                sendToSocket fd (encodeError (''User not found: '' @ target_name)) s
              else
                let m = own_message e (ci_name client) target_name PRIVATE msg;
                    s1 = addMessageToHistory m s;
                    s2 = sendToSocket target_socket (encode m) s1
                in sendToSocket fd (encode m) s2)"

subsection \<open>/history and /roomhistory\<close>

text \<open>
  The number of messages: 50 without an argument or with one that \<open>std::stoi\<close> rejects,
  otherwise the number clamped to 1..100.
\<close>

definition history_count :: "string \<Rightarrow> int" where
  "history_count iss =
     (let count_str = fst (read_word iss)
      in if count_str = [] then 50
         else case stoi 10 count_str of
                Inl _ \<Rightarrow> 50
              | Inr n \<Rightarrow>
                  let n = (if n < 1 then 1 else n)
                  in if n > 100 then 100 else n)"

text \<open>The loop from \<open>start\<close> to the end; the count is positive here.\<close>

definition last_messages :: "int \<Rightarrow> chat_message list \<Rightarrow> chat_message list" where
  "last_messages n ms =
     (let start = (if int (length ms) > n then length ms - nat n else 0)
      in drop start ms)"

definition history_line :: "env \<Rightarrow> chat_message \<Rightarrow> string" where
  "history_line e m = ''['' @ format_time e (timestamp m) @ ''] '' @ sender m @ '': '' @ content m"

definition send_history :: "env \<Rightarrow> int \<Rightarrow> string \<Rightarrow> chat_message list \<Rightarrow> server \<Rightarrow> server" where
  "send_history e fd title ms s =
     foldl (\<lambda>s m. sendToSocket fd (encodeSystemMessage (history_line e m)) s)
       (sendToSocket fd (encodeSystemMessage title) s) ms"

definition handle_history :: "env \<Rightarrow> int \<Rightarrow> string \<Rightarrow> server \<Rightarrow> server" where
  "handle_history e fd iss s =
     send_history e fd ''Message History:'' (last_messages (history_count iss) (message_history s)) s"

definition handle_roomhistory :: "env \<Rightarrow> int \<Rightarrow> client_info \<Rightarrow> string \<Rightarrow> server \<Rightarrow> server" where
  "handle_roomhistory e fd client iss s =
     (if current_room client = [] then sendToSocket fd (encodeError ''Not in any room'') s
      else send_history e fd ''Room History:''
        (case map_of (room_message_history s) (current_room client) of
           Some ms \<Rightarrow> last_messages (history_count iss) ms
         | None \<Rightarrow> []) s)"

lemma send_history_eq:
  "send_history e fd title ms s =
     s\<lparr>trace := trace s @ Send fd (encodeSystemMessage title)
         # map (\<lambda>m. Send fd (encodeSystemMessage (history_line e m))) ms\<rparr>"
proof -
  have "foldl (\<lambda>s m. sendToSocket fd (encodeSystemMessage (history_line e m)) s) s ms =
        s\<lparr>trace := trace s @ map (\<lambda>m. Send fd (encodeSystemMessage (history_line e m))) ms\<rparr>" for s
    by (induction ms arbitrary: s) (auto simp: sendToSocket_eq)
  then show ?thesis by (simp add: send_history_def sendToSocket_eq)
qed

declare send_history_eq [handler_defs]

subsection \<open>A slash word that is no command\<close>

definition handle_unknown :: "env \<Rightarrow> int \<Rightarrow> client_info \<Rightarrow> string \<Rightarrow> string \<Rightarrow> server \<Rightarrow> server" where
  "handle_unknown e fd client cmd command s =
     (if current_room client \<noteq> [] then
        (let m = own_message e (ci_name client) (current_room client) ROOM_MESSAGE command;
             s1 = message_event m (addMessageToHistory m s)
         in send_to_sockets (member_sockets (current_room client) s1) (encode m) s1)
      else sendToSocket fd (encodeError (''Unknown command: '' @ cmd)) s)"

subsection \<open>The invariant\<close>

lemma server_inv_gate: "mute_gate e fd client s = (b, s') \<Longrightarrow> server_inv s \<Longrightarrow> server_inv s'"
  by (auto simp: mute_gate_def split: if_splits intro: inv_intros)

lemma server_inv_login_first [inv_intros]: "server_inv s \<Longrightarrow> server_inv (login_first fd s)"
  unfolding login_first_def by (intro inv_intros)

lemma server_inv_route [inv_intros]: "server_inv s \<Longrightarrow> server_inv (route_msg fd message m s)"
  by (auto simp: route_msg_def Let_def split: option.split intro!: inv_intros)

lemma server_inv_msg [inv_intros]: "server_inv s \<Longrightarrow> server_inv (handle_msg e fd message s)"
  by (auto simp: handle_msg_def split: option.split prod.split
      intro!: inv_intros dest: server_inv_gate)

lemma server_inv_say [inv_intros]: "server_inv s \<Longrightarrow> server_inv (say e fd client message s)"
  by (auto simp: say_def Let_def split: option.split intro!: inv_intros)

lemma server_inv_text [inv_intros]: "server_inv s \<Longrightarrow> server_inv (handle_text e fd message s)"
  by (auto simp: handle_text_def split: option.split prod.split
      intro!: inv_intros dest: server_inv_gate)

lemma server_inv_whisper [inv_intros]:
  "server_inv s \<Longrightarrow> server_inv (handle_whisper e fd client iss s)"
  by (auto simp: handle_whisper_def Let_def split: prod.split intro!: inv_intros)

lemma server_inv_histories [inv_intros]:
  "server_inv s \<Longrightarrow> server_inv (handle_history e fd iss s)"
  "server_inv s \<Longrightarrow> server_inv (handle_roomhistory e fd client iss s)"
  by (auto simp: handle_history_def handle_roomhistory_def send_history_eq intro!: inv_intros)

lemma server_inv_unknown [inv_intros]:
  "server_inv s \<Longrightarrow> server_inv (handle_unknown e fd client cmd command s)"
  by (auto simp: handle_unknown_def Let_def intro!: inv_intros)

subsection \<open>The settled part\<close>

lemma settled_gate: "mute_gate e fd client s = (b, s') \<Longrightarrow> settled_part s' = settled_part s"
  by (auto simp: mute_gate_def settled split: if_splits)

lemma settled_messages [settled]:
  "settled_part (login_first fd s) = settled_part s"
  "settled_part (route_msg fd message m s) = settled_part s"
  "settled_part (say e fd client message s) = settled_part s"
  "settled_part (handle_whisper e fd client iss s) = settled_part s"
  "settled_part (handle_history e fd iss s) = settled_part s"
  "settled_part (handle_roomhistory e fd client iss s) = settled_part s"
  "settled_part (handle_unknown e fd client cmd command s) = settled_part s"
  by (simp_all add: login_first_def route_msg_def say_def handle_whisper_def handle_history_def
      handle_roomhistory_def handle_unknown_def send_history_eq Let_def settled
      split: option.split prod.split)

lemma settled_lines [settled]:
  "settled_part (handle_msg e fd message s) = settled_part s"
  "settled_part (handle_text e fd message s) = settled_part s"
  using settled_gate [of e fd _ s]
  by (auto simp: handle_msg_def handle_text_def settled split: option.split prod.split)

subsection \<open>Properties\<close>

lemma text_broadcast_trace:
  assumes "getClientBySocket fd s = Some client" and "is_logged_in client"
    and "\<not> is_muted client" and "current_room client = []"
    and "m = own_message e (ci_name client) [] BROADCAST text"
  shows "trace (handle_text e fd text s) = trace s
        @ (if message_callback s then [Message_cb m] else []) @ broadcast_events (encode m) s"
  using assms
  by (auto simp: handle_text_def mute_gate_def say_def Let_def handler_defs
      addMessageToHistory_def broadcast_events_fds own_message_def)

text \<open>Plain text outside rooms is chat for everybody: the text of a logged-in client without
  a room goes once to every connected client (and to the WebSocket side), as a broadcast in
  its own name with the emojis replaced; it is the newest message of the history, and nothing
  else of the tables changes.\<close>

theorem broadcast_text:
  assumes "getClientBySocket fd s = Some client" and "is_logged_in client"
    and "\<not> is_muted client" and "current_room client = []"
    and "m = own_message e (ci_name client) [] BROADCAST text"
  shows "trace (handle_text e fd text s) = trace s
        @ (if message_callback s then [Message_cb m] else []) @ broadcast_events (encode m) s
     \<and> message_history (handle_text e fd text s) = push_bounded (max_history_size s) m (message_history s)
     \<and> rooms (handle_text e fd text s) = rooms s \<and> clients (handle_text e fd text s) = clients s
     \<and> room_message_history (handle_text e fd text s) = room_message_history s"
proof -
  have "receiver m = []" using assms(5) by (simp add: own_message_def)
  then show ?thesis
    using assms
    by (auto simp: handle_text_def mute_gate_def say_def Let_def handler_defs
        addMessageToHistory_def broadcast_events_fds)
qed

theorem broadcast_text_witness:
  "trace (handle_text sample_env 5 ''hi'' sample_server) =
     map (\<lambda>fd. Send fd (encode (own_message sample_env ''ann'' [] BROADCAST ''hi''))) [5, 6]"
  using broadcast_text [of 5 sample_server "sample_client 5 ''ann''"
      "own_message sample_env ''ann'' [] BROADCAST ''hi''" sample_env "''hi''"]
  by (simp add: getClientBySocket_def broadcast_events_def)

text \<open>Text in a room stays in the room: it goes, once and in the order of the member list, to
  the members that are registered under their name, and to no one else; it is the newest
  message of the global history and of the room's history.\<close>

theorem room_text:
  assumes "getClientBySocket fd s = Some client" and "is_logged_in client" and "\<not> is_muted client"
    and "current_room client = r" and "r \<noteq> []" and "map_of (rooms s) r = Some room"
    and "m = own_message e (ci_name client) r ROOM_MESSAGE text"
  shows "trace (handle_text e fd text s) = trace s
        @ map (\<lambda>k. Send k (encode m)) (List.map_filter (map_of (name_to_socket s)) (members room))
        @ (if message_callback s then [Message_cb m] else [])
     \<and> message_history (handle_text e fd text s) = push_bounded (max_history_size s) m (message_history s)
     \<and> map_of (room_message_history (handle_text e fd text s)) = (map_of (room_message_history s))
         (r \<mapsto> push_bounded (max_history_size s) m
            (case map_of (room_message_history s) r of Some ms \<Rightarrow> ms | None \<Rightarrow> []))"
proof -
  have "receiver m = r" "msg_type m = ROOM_MESSAGE"
    using assms(7) by (simp_all add: own_message_def)
  then show ?thesis
    using assms
    by (auto simp: handle_text_def mute_gate_def say_def Let_def handler_defs addMessageToHistory_def)
qed

theorem room_text_witness:
  "trace (handle_text sample_env 5 ''hi'' (sample_server
      \<lparr>clients := [(5, (sample_client 5 ''ann'')\<lparr>current_room := ''bob''\<rparr>), (6, sample_client 6 ''Guest_6'')],
       rooms := [(''bob'', sample_room [])]\<rparr>)) =
     [Send 5 (encode (own_message sample_env ''ann'' ''bob'' ROOM_MESSAGE ''hi''))]"
  using room_text [of 5 "sample_server
      \<lparr>clients := [(5, (sample_client 5 ''ann'')\<lparr>current_room := ''bob''\<rparr>), (6, sample_client 6 ''Guest_6'')],
       rooms := [(''bob'', sample_room [])]\<rparr>" "(sample_client 5 ''ann'')\<lparr>current_room := ''bob''\<rparr>"
      "''bob''" "sample_room []" "own_message sample_env ''ann'' ''bob'' ROOM_MESSAGE ''hi''" sample_env "''hi''"]
  by (simp add: getClientBySocket_def sample_room_def List.map_filter_simps)

text \<open>Who may not speak is not heard: neither a line of text nor a decodable \<open>MSG\<close> line of a
  client that is not logged in, or that is muted, has any effect but an error to the client.\<close>

theorem silent_clients:
  assumes "getClientBySocket fd s = Some client"
    and "\<not> is_logged_in client \<or> (is_muted client \<and> clock e \<le> mute_end_time client)"
    and "decode (clock e) line = Some m"
    and "answer = sendToSocket fd (encodeError
          (if is_logged_in client then ''You are muted. Please wait until the mute period ends.''
           else ''Please login first using /login <name>'')) s"
  shows "handle_text e fd text s = answer \<and> handle_msg e fd line s = answer"
  using assms by (auto simp: handle_text_def handle_msg_def mute_gate_def login_first_def)

theorem silent_clients_witness:
  "handle_text sample_env 6 ''hi'' sample_server =
     sendToSocket 6 (encodeError ''Please login first using /login <name>'') sample_server"
proof -
  have "decode (clock sample_env) (encode sample_message) = Some (received (clock sample_env) sample_message)"
    using storable_sample by (intro decode_encode) (simp add: storable_def)
  from silent_clients [of 6 sample_server "sample_client 6 ''Guest_6''" sample_env _ _ _ "''hi''", OF _ _ this]
  show ?thesis by (simp add: getClientBySocket_def)
qed

text \<open>C25: A whisper reaches its target and its sender only: for a name in use, the message goes
  to the client behind the name and back to the sender, it is recorded, and nobody else is
  written to; for a name not in use the sender gets an error.\<close>

theorem whisper_effect:
  assumes "server_inv s" and "word name" and "line_text msg"
    and "m = own_message e (ci_name client) name PRIVATE msg"
  shows "handle_whisper e fd client ('' '' @ name @ '' '' @ msg) s =
    (case map_of (name_to_socket s) name of
       None \<Rightarrow> sendToSocket fd (encodeError (''User not found: '' @ name)) s
     | Some target \<Rightarrow>
         s\<lparr>message_history := push_bounded (max_history_size s) m (message_history s),
           trace := trace s @ [Send target (encode m), Send fd (encode m)]\<rparr>)"
proof -
  have w: "read_word ('' '' @ name @ '' '' @ msg) = (name, '' '' @ msg)" "read_line ('' '' @ msg) = msg"
    using read_two [OF assms(2,3)] by simp_all
  have ne: "name \<noteq> []" "msg \<noteq> []" using assms(2,3) by (auto simp: line_text_def)
  show ?thesis
  proof (cases "map_of (name_to_socket s) name")
    case None
    then show ?thesis
      unfolding handle_whisper_def w(1) prod.case Let_def w(2)
      by (simp add: ne getClientByNameUnlocked_def)
  next
    case (Some target)
    from registered_client [OF assms(1) Some]
    obtain c where c: "map_of (clients s) target = Some c" "socket_fd c = target" "0 \<le> target" by blast
    have "msg_type m \<noteq> ROOM_MESSAGE" using assms(4) by (simp add: own_message_def)
    with Some c assms(4) show ?thesis
      unfolding handle_whisper_def w(1) prod.case Let_def w(2)
      by (simp add: ne getClientByNameUnlocked_def addMessageToHistory_def sendToSocket_eq)
  qed
qed

theorem whisper_effect_witness:
  "trace (handle_whisper sample_env 6 (sample_client 6 ''Guest_6'') ('' '' @ ''ann'' @ '' '' @ ''hi'') sample_server) =
     map (\<lambda>fd. Send fd (encode (own_message sample_env ''Guest_6'' ''ann'' PRIVATE ''hi''))) [5, 6]"
  using whisper_effect [OF sample_server_inv, of "''ann''" "''hi''"
     "own_message sample_env ''Guest_6'' ''ann'' PRIVATE ''hi''" sample_env "sample_client 6 ''Guest_6''" 6]
  by simp

text \<open>\<open>/history n\<close> answers with a title and then the latest messages, oldest first, as many as
  asked for but at least one and at most a hundred, and changes nothing.\<close>

theorem history_command:
  assumes "- (2 ^ 31) \<le> n" and "n < 2 ^ 31"
  shows "handle_history e fd ('' '' @ show_int n) s = s\<lparr>trace := trace s
    @ Send fd (encodeSystemMessage ''Message History:'')
    # map (\<lambda>m. Send fd (encodeSystemMessage (history_line e m)))
        (drop (length (message_history s) - nat (max 1 (min 100 n))) (message_history s))\<rparr>"
proof -
  have word: "word (show_int n)"
    using hd_show_nat show_nat_safe
    by (auto simp: word_def show_int_def is_space_def dest: show_nat_digits)
  then have "fst (read_word ('' '' @ show_int n)) = show_int n" "show_int n \<noteq> []"
    by (simp_all add: string_ops word_def)
  then have "history_count ('' '' @ show_int n) = max 1 (min 100 n)"
    using stoi_show_int [OF assms] by (auto simp: history_count_def Let_def)
  moreover have "last_messages k ms = drop (length ms - nat k) ms" if "1 \<le> k" for k ms
    using that by (auto simp: last_messages_def Let_def)
  ultimately show ?thesis by (simp add: handle_history_def send_history_eq)
qed

theorem history_command_witness:
  "handle_history sample_env 5 ('' '' @ show_int 1000) (sample_server\<lparr>message_history := [sample_message]\<rparr>) =
   sample_server\<lparr>message_history := [sample_message],
     trace := [Send 5 (encodeSystemMessage ''Message History:''),
               Send 5 (encodeSystemMessage (history_line sample_env sample_message))]\<rparr>"
  using history_command [of 1000 sample_env 5 "sample_server\<lparr>message_history := [sample_message]\<rparr>"]
  by simp

end
