(* ===== verification/Moderation.thy ===== *)
theory Moderation
  imports Rooms
begin

section \<open>Administration and departure: /mute, /unmute, /kick, /quit, removeClient (src/server.cpp)\<close>

text \<open>
  The administrator's branches of \<open>handleCommand\<close>, and \<open>removeClient\<close> with its join of the
  client's thread.
\<close>

subsection \<open>removeClient\<close>

text \<open>
  \<open>self\<close> is the thread that executes the call. The join happens under \<open>threads_mutex_\<close>:
  joining oneself throws, joining a thread that has not returned waits for it.
\<close>

definition disconnect_event :: "string \<Rightarrow> int \<Rightarrow> server \<Rightarrow> server" where
  "disconnect_event name fd s =
     (if disconnect_callback s \<and> name \<noteq> [] then emit (Disconnect_cb fd name) s else s)"

definition forget_client :: "int \<Rightarrow> server \<Rightarrow> string \<times> server" where
  "forget_client fd s =
     (case map_of (clients s) fd of
        None \<Rightarrow> ([], s)
      | Some c \<Rightarrow>
          (ci_name c, s\<lparr>name_to_socket := AList.delete (ci_name c) (name_to_socket s),
                       clients := AList.delete fd (clients s)\<rparr>))"

definition removeClient :: "nat \<Rightarrow> int \<Rightarrow> server \<Rightarrow> result" where
  "removeClient self fd s =
     (let (name, s1) = forget_client fd s;
          s2 = emit (Close fd) s1
      in case map_of (client_threads s2) fd of
           None \<Rightarrow> Inr (disconnect_event name fd s2)
         | Some t \<Rightarrow>
             if t = self then Inl (Self_join, s2)
             else if t \<notin> set (exited s2) then Inl (Join_waits t, s2)
             else Inr (disconnect_event name fd
                    (s2\<lparr>client_threads := AList.delete fd (client_threads s2)\<rparr>)))"

definition closeClientSocket :: "nat \<Rightarrow> int \<Rightarrow> server \<Rightarrow> result" where
  "closeClientSocket self fd s = removeClient self fd s"

subsection \<open>/mute and /unmute\<close>

text \<open>Clock ticks (nanoseconds) in a minute.\<close>

definition minute :: int where
  "minute = 60 * 1000000000"

definition mute_minutes :: "string \<Rightarrow> int" where
  "mute_minutes time_str =
     (if time_str = [] then 10
      else case stoi 10 time_str of
             Inl _ \<Rightarrow> 10
           | Inr minutes \<Rightarrow>
               let minutes = (if minutes < 1 then 1 else minutes)
               in if minutes > 60 then 60 else minutes)"

definition handle_mute :: "env \<Rightarrow> int \<Rightarrow> client_info \<Rightarrow> string \<Rightarrow> server \<Rightarrow> server" where
  "handle_mute e fd client iss s =
     (if \<not> is_admin client then sendToSocket fd (encodeError ''Admin permission required'') s
      else
        let (target_name, iss1) = read_word iss;
            time_str = read_line iss1
        in if target_name = [] then sendToSocket fd (encodeError ''Usage: /mute <name> [time]'') s
           else case getClientByName target_name s of
             None \<Rightarrow> sendToSocket fd (encodeError (''User not found: '' @ target_name)) s
           | Some target \<Rightarrow>
               let minutes = mute_minutes time_str;
                   s1 = modify_client (socket_fd target)
                          (\<lambda>c. c\<lparr>is_muted := True, mute_end_time := clock e + minutes * minute\<rparr>) s;
                   s2 = sendToSocket fd (encodeSuccess
                          (''Muted '' @ target_name @ '' for '' @ show_int minutes @ '' minutes'')) s1;
                   s3 = sendToSocket (socket_fd target) (encodeSystemMessage
                          (''You have been muted for '' @ show_int minutes @ '' minutes'')) s2
               in broadcast (encodeSystemMessage
                    (target_name @ '' has been muted for '' @ show_int minutes @ '' minutes'')) s3)"

definition handle_unmute :: "env \<Rightarrow> int \<Rightarrow> client_info \<Rightarrow> string \<Rightarrow> server \<Rightarrow> server" where
  "handle_unmute e fd client iss s =
     (if \<not> is_admin client then sendToSocket fd (encodeError ''Admin permission required'') s
      else
        let target_name = fst (read_word iss)
        in if target_name = [] then sendToSocket fd (encodeError ''Usage: /unmute <name>'') s
           else case getClientByName target_name s of
             None \<Rightarrow> sendToSocket fd (encodeError (''User not found: '' @ target_name)) s
           | Some target \<Rightarrow>
               let s1 = modify_client (socket_fd target)
                          (\<lambda>c. c\<lparr>is_muted := False, mute_end_time := clock e\<rparr>) s;
                   s2 = sendToSocket fd (encodeSuccess (''Unmuted '' @ target_name)) s1;
                   s3 = sendToSocket (socket_fd target)
                          (encodeSystemMessage ''You have been unmuted'') s2
               in broadcast (encodeSystemMessage (target_name @ '' has been unmuted'')) s3)"

subsection \<open>/kick and /quit\<close>

definition with_reason :: "string \<Rightarrow> string \<Rightarrow> string" where
  "with_reason text reason = (if reason \<noteq> [] then text @ '': '' @ reason else text)"

definition handle_kick :: "nat \<Rightarrow> int \<Rightarrow> client_info \<Rightarrow> string \<Rightarrow> server \<Rightarrow> result" where
  "handle_kick self fd client iss s =
     (if \<not> is_admin client then
        Inr (sendToSocket fd (encodeError ''Admin permission required'') s)
      else
        let (target_name, iss1) = read_word iss;
            reason = read_line iss1
        in if target_name = [] then
             Inr (sendToSocket fd (encodeError ''Usage: /kick <name> [reason]'') s)
           else case getClientByName target_name s of
             None \<Rightarrow> Inr (sendToSocket fd (encodeError (''User not found: '' @ target_name)) s)
           | Some target \<Rightarrow>
               let s1 = sendToSocket (socket_fd target) (encodeSystemMessage
                          (with_reason ''You have been kicked from the server'' reason)) s;
                   s2 = broadcast (encodeSystemMessage
                          (with_reason (target_name @ '' has been kicked from the server'') reason)) s1
               in closeClientSocket self (socket_fd target) s2)"

text \<open>
  Leaving altogether: the room is left first (but \<open>current_room\<close> stays), then the client
  is removed by its own thread.
\<close>

definition handle_quit :: "nat \<Rightarrow> int \<Rightarrow> client_info \<Rightarrow> server \<Rightarrow> result" where
  "handle_quit self fd client s =
     (let s1 = (if current_room client \<noteq> [] then
                  broadcast (encodeSystemMessage
                      (ci_name client @ '' left room: '' @ current_room client))
                    (remove_member (current_room client) (ci_name client) s)
                else s);
          s2 = sendToSocket fd (encodeSuccess ''Goodbye!'') s1
      in removeClient self fd s2)"

subsection \<open>The invariant\<close>

lemma server_inv_drop_thread:
  assumes "server_inv s" and "map_of (clients s) fd = None"
  shows "server_inv (s\<lparr>client_threads := AList.delete fd (client_threads s)\<rparr>)" (is "server_inv ?t")
proof -
  have "fd \<notin> fst ` set (clients s)" using assms(2) by (simp add: map_of_eq_None_iff)
  then have "fst ` set (clients ?t) \<subseteq> fst ` set (client_threads ?t)"
    using clients_have_threads [OF assms(1)] by (force simp: AList.delete_eq)
  then have "wf_threads ?t"
    using assms(1)
    by (auto simp: server_inv_def wf_threads_def AList.delete_eq distinct_map_filter)
  then show ?thesis
    using assms(1) by (simp add: server_inv_def wf_clients_def wf_names_def wf_rooms_def wf_history_def)
qed

lemma server_inv_removeClient [inv_intros]:
  assumes "server_inv s"
  shows "result_inv server_inv (removeClient self fd s)"
proof -
  obtain name s1 where f: "forget_client fd s = (name, s1)" by fastforce
  have s1: "server_inv s1 \<and> map_of (clients s1) fd = None"
  proof (cases "map_of (clients s) fd")
    case (Some c)
    then show ?thesis
      using f server_inv_forget [OF assms Some] by (auto simp: forget_client_def)
  next
    case None
    then show ?thesis using f assms by (simp add: forget_client_def)
  qed
  then have "server_inv (emit e s1)" and "map_of (clients (emit e s1)) fd = None" for e
    by (simp_all add: emit_def)
  with f s1 show ?thesis
    by (auto simp: removeClient_def Let_def disconnect_event_def split: option.split
        intro!: inv_intros server_inv_drop_thread)
qed

lemma server_inv_mute [inv_intros]: "server_inv s \<Longrightarrow> server_inv (handle_mute e fd client iss s)"
  by (auto simp: handle_mute_def Let_def split: prod.split option.split intro!: inv_intros)

lemma server_inv_unmute [inv_intros]: "server_inv s \<Longrightarrow> server_inv (handle_unmute e fd client iss s)"
  by (auto simp: handle_unmute_def Let_def split: option.split intro!: inv_intros)

lemma server_inv_kick [inv_intros]:
  "server_inv s \<Longrightarrow> result_inv server_inv (handle_kick self fd client iss s)"
  by (auto simp: handle_kick_def closeClientSocket_def Let_def split: prod.split option.split
      intro!: inv_intros)

lemma server_inv_quit [inv_intros]:
  "server_inv s \<Longrightarrow> result_inv server_inv (handle_quit self fd client s)"
  by (auto simp: handle_quit_def Let_def intro!: inv_intros)

subsection \<open>The settled part\<close>

lemma settled_mutes [settled]:
  "settled_part (handle_mute e fd client iss s) = settled_part s"
  "settled_part (handle_unmute e fd client iss s) = settled_part s"
  by (simp_all add: handle_mute_def handle_unmute_def Let_def settled split: option.split prod.split)

subsection \<open>Properties\<close>

text \<open>Only administrators moderate: \<open>/mute\<close>, \<open>/unmute\<close> and \<open>/kick\<close> of any other client do
  nothing but answer that the permission is missing.\<close>

theorem moderation_needs_admin:
  assumes "\<not> is_admin client"
  shows "handle_mute e fd client iss s = sendToSocket fd (encodeError ''Admin permission required'') s
     \<and> handle_unmute e fd client iss s = sendToSocket fd (encodeError ''Admin permission required'') s
     \<and> handle_kick self fd client iss s =
         Inr (sendToSocket fd (encodeError ''Admin permission required'') s)"
  using assms by (simp add: handle_mute_def handle_unmute_def handle_kick_def)

theorem moderation_needs_admin_witness:
  "handle_kick 0 6 (sample_client 6 ''Guest_6'') '' ann'' sample_server =
     Inr (sendToSocket 6 (encodeError ''Admin permission required'') sample_server)"
  using moderation_needs_admin [of "sample_client 6 ''Guest_6''"] by simp

text \<open>A mute lasts between one minute and an hour: \<open>/mute name n\<close> of an administrator mutes
  exactly the client behind the name, from now for \<open>n\<close> minutes clamped to 1..60, and tells
  the administrator, the muted client and everybody.\<close>

theorem mute_effect:
  assumes "server_inv s" and "is_admin client" and "word name"
    and "map_of (name_to_socket s) name = Some target" and "map_of (clients s) target = Some c"
    and "- (2 ^ 31) \<le> n" and "n < 2 ^ 31" and "k = max 1 (min 60 n)"
  shows "map_of (clients (handle_mute e fd client ('' '' @ name @ '' '' @ show_int n) s)) =
       (map_of (clients s))(target \<mapsto> c\<lparr>is_muted := True, mute_end_time := clock e + k * minute\<rparr>)
     \<and> trace (handle_mute e fd client ('' '' @ name @ '' '' @ show_int n) s) = trace s
       @ [Send fd (encodeSuccess (''Muted '' @ name @ '' for '' @ show_int k @ '' minutes'')),
          Send target (encodeSystemMessage (''You have been muted for '' @ show_int k @ '' minutes''))]
       @ broadcast_events (encodeSystemMessage
           (name @ '' has been muted for '' @ show_int k @ '' minutes'')) s"
proof -
  have "line_text (show_int n)"
    using hd_show_nat show_nat_safe by (auto simp: line_text_def show_int_def is_space_def)
  from read_two [OF assms(3) this]
  have w: "read_word ('' '' @ name @ '' '' @ show_int n) = (name, '' '' @ show_int n)"
    "read_line ('' '' @ show_int n) = show_int n" by simp_all
  have ne: "name \<noteq> []" "show_int n \<noteq> []" using assms(3) by (auto simp: show_int_def)
  have k: "mute_minutes (show_int n) = k"
    using stoi_show_int [OF assms(6,7)] ne(2) assms(8) by (auto simp: mute_minutes_def Let_def)
  have c: "socket_fd c = target" using assms(1,5) by (simp add: server_inv_def wf_clients_def)
  show ?thesis
    unfolding handle_mute_def w(1) prod.case Let_def w(2) k
    using assms(2,4,5) c
    by (simp add: ne getClientByName_def getClientByNameUnlocked_def handler_defs
        broadcast_events_fds fun_eq_iff)
qed

theorem mute_effect_witness:
  "map_of (clients (handle_mute sample_env 5 ((sample_client 5 ''ann'')\<lparr>is_admin := True\<rparr>)
      ('' '' @ ''ann'' @ '' '' @ show_int 90) sample_server)) 5 =
   Some ((sample_client 5 ''ann'')\<lparr>is_muted := True, mute_end_time := 1000 + 60 * minute\<rparr>)"
  using mute_effect [OF sample_server_inv, of "(sample_client 5 ''ann'')\<lparr>is_admin := True\<rparr>" "''ann''" 5
      "sample_client 5 ''ann''" 90 60 sample_env 5]
  by (simp add: sample_env_def)

text \<open>C37: A disconnecting client takes the server down: when the thread of a client finds the
  connection closed (or executes \<open>/quit\<close>), the client and its name are removed and the
  descriptor closed, and then the thread joins itself, which throws and is not caught.\<close>

theorem disconnect_joins_itself:
  assumes "server_inv s" and "map_of (clients s) fd = Some c" and "map_of (client_threads s) fd = Some self"
  shows "\<exists>s'. removeClient self fd s = Inl (Self_join, s')
     \<and> map_of (clients s') = (map_of (clients s))(fd := None)
     \<and> map_of (name_to_socket s') = (map_of (name_to_socket s))(ci_name c := None)
     \<and> trace s' = trace s @ [Close fd]
     \<and> (\<exists>s''. handle_quit self fd c s = Inl (Self_join, s''))"
proof -
  have keep: "client_threads (remove_member r n t) = client_threads t" for r n t
    by (simp add: remove_member_def Let_def split: option.split)
  have "\<exists>t'. removeClient self fd t = Inl (Self_join, t')" if "client_threads t = client_threads s" for t
    using that assms(3)
    by (simp add: removeClient_def forget_client_def emit_def Let_def split: option.split prod.split)
  then have "\<exists>s''. handle_quit self fd c s = Inl (Self_join, s'')"
    by (simp add: handle_quit_def Let_def handler_defs keep)
  then show ?thesis
    using assms by (simp add: removeClient_def forget_client_def emit_def Let_def fun_eq_iff)
qed

theorem disconnect_joins_itself_witness:
  "\<exists>s'. removeClient 0 5 sample_server = Inl (Self_join, s')
     \<and> map_of (clients s') = [6 \<mapsto> sample_client 6 ''Guest_6''] \<and> trace s' = [Close 5]"
  using disconnect_joins_itself [OF sample_server_inv, of 5 "sample_client 5 ''ann''" 0]
  by (auto simp: fun_eq_iff)

text \<open>Kicking a connected client never returns: the administrator's thread waits, with
  \<open>threads_mutex_\<close> held, for the thread of the client it has just removed.\<close>

theorem kick_waits:
  assumes "server_inv s" and "is_admin client" and "word name"
    and "map_of (name_to_socket s) name = Some target" and "target \<noteq> fd"
    and "map_of (client_threads s) target = Some t" and "t \<noteq> self" and "t \<notin> set (exited s)"
  shows "\<exists>s'. handle_kick self fd client ('' '' @ name) s = Inl (Join_waits t, s')
     \<and> map_of (clients s') = (map_of (clients s))(target := None)
     \<and> map_of (name_to_socket s') = (map_of (name_to_socket s))(name := None)"
proof -
  obtain c where c: "map_of (clients s) target = Some c" "ci_name c = name" "socket_fd c = target"
    using registered_client [OF assms(1,4)] by blast
  have "read_word ('' '' @ name) = (name, [])" using assms(3) by (simp add: string_ops)
  moreover have "name \<noteq> []" using assms(3) by blast
  ultimately show ?thesis
    using assms c
    by (simp add: handle_kick_def getClientByName_def getClientByNameUnlocked_def closeClientSocket_def
        removeClient_def forget_client_def emit_def Let_def handler_defs fun_eq_iff)
qed

theorem kick_waits_witness:
  "\<exists>s'. handle_kick 1 6 ((sample_client 6 ''Guest_6'')\<lparr>is_admin := True\<rparr>) ('' '' @ ''ann'') sample_server =
      Inl (Join_waits 0, s') \<and> map_of (name_to_socket s') ''ann'' = None"
  using kick_waits [OF sample_server_inv, of "(sample_client 6 ''Guest_6'')\<lparr>is_admin := True\<rparr>" "''ann''" 5 6 0 1]
  by (auto simp: fun_eq_iff)

end
