(* ===== verification/File_Transfer.thy ===== *)
theory File_Transfer
  imports Rooms
begin

section \<open>Files and receipts (src/server.cpp)\<close>

text \<open>
  The commands \<open>/transfer\<close> and \<open>/file\<close>, which read a file of the server's disk and send it
  in blocks, and the five branches of \<open>handleClient\<close> that relay file messages and process
  read receipts.
\<close>

subsection \<open>Sending a file\<close>

definition buffer_size :: nat where
  "buffer_size = 4096"

text \<open>What follows the last slash or backslash.\<close>

definition file_name_of :: "string \<Rightarrow> string" where
  "file_name_of path = rev (takeWhile (\<lambda>c. c \<noteq> CHR ''/'' \<and> c \<noteq> CHR 0x5C) (rev path))"

text \<open>
  The loop of \<open>file.read\<close>; \<open>send offset file_data complete\<close> is its body's output. A read that
  delivers nothing ends it.
\<close>

function read_loop ::
  "(nat \<Rightarrow> string \<Rightarrow> bool \<Rightarrow> server \<Rightarrow> server) \<Rightarrow> nat \<Rightarrow> nat \<Rightarrow> string \<Rightarrow> server \<Rightarrow> server" where
  "read_loop send fsize offset rest s =
     (if rest = [] then s
      else
        let data = take buffer_size rest;
            complete = (offset + length data \<ge> fsize)
        in read_loop send fsize (offset + length data) (drop buffer_size rest)
             (send offset data complete s))"
  by pat_completeness auto
termination
  by (relation "measure (\<lambda>(send, fsize, offset, rest, s). length rest)")
     (auto simp: buffer_size_def)

declare read_loop.simps [simp del]

definition handle_transfer :: "int \<Rightarrow> client_info \<Rightarrow> string \<Rightarrow> server \<Rightarrow> server" where
  "handle_transfer fd client iss s =
     (let (file_path, iss1) = read_word iss;
          target_name = fst (read_word iss1)
      in if file_path = [] \<or> target_name = [] then
           sendToSocket fd
             (encodeError ''Usage: /transfer <file> <name> or /t <file> <name>'') s
         else
           let target_socket = (case getClientByNameUnlocked target_name s of
                                  Some target \<Rightarrow> socket_fd target
                                | None \<Rightarrow> -1)
           in if target_socket = -1 then
                sendToSocket fd (encodeError (''User not found: '' @ target_name)) s
              else case disk s file_path of
                None \<Rightarrow> sendToSocket fd (encodeError (''Failed to open file: '' @ file_path)) s
              | Some file \<Rightarrow>
                  let fname = file_name_of file_path;
                      fsize = length file;
                      s1 = sendToSocket target_socket
                             (encodeFileTransfer (ci_name client) target_name fname fsize) s;
                      s2 = read_loop (\<lambda>offset data complete. sendToSocket target_socket
                               (encodeFileData (ci_name client) target_name fname offset data complete))
                             fsize 0 file s1
                  in sendToSocket fd (encodeSuccess (''File transfer started: '' @ fname)) s2)"

definition handle_file :: "int \<Rightarrow> client_info \<Rightarrow> string \<Rightarrow> server \<Rightarrow> server" where
  "handle_file fd client iss s =
     (let file_path = fst (read_word iss)
      in if file_path = [] then sendToSocket fd (encodeError ''Usage: /file <file>'') s
         else if current_room client = [] then
           sendToSocket fd (encodeError ''Not in any room'') s
         else case disk s file_path of
           None \<Rightarrow> sendToSocket fd (encodeError (''Failed to open file: '' @ file_path)) s
         | Some file \<Rightarrow>
             let fname = file_name_of file_path;
                 fsize = length file;
                 rname = current_room client;
                 sockets = member_sockets rname s;
                 s1 = send_to_sockets sockets
                        (encodeFileTransfer (ci_name client) rname fname fsize) s;
                 s2 = read_loop (\<lambda>offset data complete. send_to_sockets sockets
                          (encodeFileData (ci_name client) rname fname offset data complete))
                        fsize 0 file s1
             in sendToSocket fd (encodeSuccess (''File sent to room: '' @ fname)) s2)"

subsection \<open>Relays\<close>

text \<open>The forwarding at the end of the file branches: to all the others, or to one client.\<close>

definition relay_to :: "int \<Rightarrow> string \<Rightarrow> string \<Rightarrow> server \<Rightarrow> server" where
  "relay_to fd rcvr message s =
     (case getClientByNameUnlocked rcvr s of
        Some target \<Rightarrow> sendToSocket (socket_fd target) message s
      | None \<Rightarrow> sendToSocket fd (encodeError (''User '' @ rcvr @ '' not found'')) s)"

definition relay :: "int \<Rightarrow> string \<Rightarrow> string \<Rightarrow> server \<Rightarrow> server" where
  "relay fd rcvr message s =
     (if rcvr = [] then
        foldl (\<lambda>s (k, c). if is_logged_in c \<and> k \<noteq> fd then sendToSocket k message s else s) s (clients s)
      else relay_to fd rcvr message s)"

text \<open>
  Each branch parses the line field by field and leaves it at the first field that is
  missing (\<open>continue\<close>). The last field is delimited by a newline.
\<close>

definition handle_file_transfer :: "int \<Rightarrow> string \<Rightarrow> server \<Rightarrow> result" where
  "handle_file_transfer fd message s =
     (case next_field field_sep message 14 of None \<Rightarrow> Inr s | Some (sndr, p1) \<Rightarrow>
     (case next_field field_sep message p1 of None \<Rightarrow> Inr s | Some (rcvr, p2) \<Rightarrow>
     (case next_field field_sep message p2 of None \<Rightarrow> Inr s | Some (fname, p3) \<Rightarrow>
     (case next_field newline message p3 of None \<Rightarrow> Inr s | Some (size_str, p4) \<Rightarrow>
        try_call s (stoull size_str) (\<lambda>_. Inr (relay fd rcvr message s))))))"

definition handle_file_request :: "int \<Rightarrow> string \<Rightarrow> server \<Rightarrow> result" where
  "handle_file_request fd message s =
     (case next_field field_sep message 13 of None \<Rightarrow> Inr s | Some (sndr, p1) \<Rightarrow>
     (case next_field field_sep message p1 of None \<Rightarrow> Inr s | Some (rcvr, p2) \<Rightarrow>
     (case next_field newline message p2 of None \<Rightarrow> Inr s | Some (fname, p3) \<Rightarrow>
        Inr (relay_to fd rcvr message s))))"

definition handle_file_response :: "int \<Rightarrow> string \<Rightarrow> server \<Rightarrow> result" where
  "handle_file_response fd message s =
     (case next_field field_sep message 14 of None \<Rightarrow> Inr s | Some (sndr, p1) \<Rightarrow>
     (case next_field field_sep message p1 of None \<Rightarrow> Inr s | Some (rcvr, p2) \<Rightarrow>
     (case next_field field_sep message p2 of None \<Rightarrow> Inr s | Some (fname, p3) \<Rightarrow>
     (case next_field newline message p3 of None \<Rightarrow> Inr s | Some (accepted, p4) \<Rightarrow>
        Inr (relay_to fd rcvr message s)))))"

definition handle_file_data :: "int \<Rightarrow> string \<Rightarrow> server \<Rightarrow> result" where
  "handle_file_data fd message s =
     (case next_field field_sep message 10 of None \<Rightarrow> Inr s | Some (sndr, p1) \<Rightarrow>
     (case next_field field_sep message p1 of None \<Rightarrow> Inr s | Some (rcvr, p2) \<Rightarrow>
     (case next_field field_sep message p2 of None \<Rightarrow> Inr s | Some (fname, p3) \<Rightarrow>
     (case next_field field_sep message p3 of None \<Rightarrow> Inr s | Some (offset_str, p4) \<Rightarrow>
        try_call s (stoull offset_str) (\<lambda>_.
          (case next_field field_sep message p4 of None \<Rightarrow> Inr s | Some (data, p5) \<Rightarrow>
          (case next_field newline message p5 of None \<Rightarrow> Inr s | Some (complete, p6) \<Rightarrow>
             Inr (relay fd rcvr message s))))))))"

subsection \<open>Read receipts\<close>

text \<open>Mark the first message with the identifier, and return it.\<close>

fun mark_read :: "string \<Rightarrow> string \<Rightarrow> chat_message list \<Rightarrow> chat_message list \<times> chat_message option" where
  "mark_read mid user [] = ([], None)"
| "mark_read mid user (m # ms) =
     (if message_id m = mid
      then (m\<lparr>read_status := AList.update user True (read_status m)\<rparr> # ms, Some m)
      else let (ms', found) = mark_read mid user ms in (m # ms', found))"

definition notify_sender :: "chat_message \<Rightarrow> string \<Rightarrow> server \<Rightarrow> server" where
  "notify_sender m text s =
     (case map_of (name_to_socket s) (sender m) of
        Some sender_socket \<Rightarrow>
          if sender_socket \<noteq> -1 then sendToSocket sender_socket (encodeSystemMessage text) s else s
      | None \<Rightarrow> s)"

definition receipt_global :: "string \<Rightarrow> string \<Rightarrow> server \<Rightarrow> server" where
  "receipt_global mid user s =
     (let (ms, found) = mark_read mid user (message_history s);
          s1 = s\<lparr>message_history := ms\<rparr>
      in case found of
           None \<Rightarrow> s1
         | Some m \<Rightarrow> notify_sender m (user @ '' has read your message'') s1)"

definition receipt_room :: "string \<Rightarrow> string \<Rightarrow> server \<Rightarrow> string \<times> chat_message list \<Rightarrow> server" where
  "receipt_room mid user s entry =
     (let (rname, msgs) = entry;
          (ms, found) = mark_read mid user msgs;
          s1 = s\<lparr>room_message_history := AList.update rname ms (room_message_history s)\<rparr>
      in case found of
           None \<Rightarrow> s1
         | Some m \<Rightarrow>
             notify_sender m (user @ '' has read your message in room '' @ rname) s1)"

definition handle_read_receipt :: "string \<Rightarrow> server \<Rightarrow> result" where
  "handle_read_receipt message s =
     (case next_field field_sep message 13 of None \<Rightarrow> Inr s | Some (mid, p1) \<Rightarrow>
     (case next_field newline message p1 of None \<Rightarrow> Inr s | Some (user, p2) \<Rightarrow>
        let s1 = receipt_global mid user s
        in Inr (foldl (receipt_room mid user) s1 (room_message_history s1))))"

subsection \<open>The invariant\<close>

lemma read_loop_keeps:
  assumes "\<And>offset data complete s. P s \<Longrightarrow> P (send offset data complete s)" and "P s"
  shows "P (read_loop send fsize offset rest s)"
  using assms(2)
proof (induction "length rest" arbitrary: offset rest s rule: less_induct)
  case less
  show ?case
  proof (cases "rest = []")
    case False
    then have "length (drop buffer_size rest) < length rest" by (simp add: buffer_size_def)
    with less assms(1) False show ?thesis
      by (simp add: read_loop.simps [of send fsize offset rest s] Let_def)
  qed (use less.prems in \<open>simp add: read_loop.simps [of send fsize offset "[]" s]\<close>)
qed

lemmas server_inv_read_loop [inv_intros] = read_loop_keeps [where P = server_inv]

lemma server_inv_transfer [inv_intros]:
  "server_inv s \<Longrightarrow> server_inv (handle_transfer fd client iss s)"
  by (auto simp: handle_transfer_def Let_def split: prod.split option.split intro!: inv_intros)

lemma server_inv_file [inv_intros]: "server_inv s \<Longrightarrow> server_inv (handle_file fd client iss s)"
  by (auto simp: handle_file_def Let_def split: option.split intro!: inv_intros)

lemma relay_eq:
  "relay fd rcvr message s =
     (if rcvr = [] then s\<lparr>trace := trace s
          @ map (\<lambda>(k, _). Send k message) (filter (\<lambda>(k, c). is_logged_in c \<and> k \<noteq> fd) (clients s))\<rparr>
      else relay_to fd rcvr message s)"
proof -
  have "foldl (\<lambda>s (k, c). if is_logged_in c \<and> k \<noteq> fd then sendToSocket k message s else s) s cs =
    s\<lparr>trace := trace s
       @ map (\<lambda>(k, _). Send k message) (filter (\<lambda>(k, c). is_logged_in c \<and> k \<noteq> fd) cs)\<rparr>" for cs :: "(int \<times> client_info) list"
  proof (induction cs arbitrary: s)
    case (Cons x cs)
    then show ?case by (cases "is_logged_in (snd x) \<and> fst x \<noteq> fd") (auto simp: sendToSocket_eq)
  qed simp
  then show ?thesis by (simp add: relay_def)
qed

lemma server_inv_relay_to [inv_intros]: "server_inv s \<Longrightarrow> server_inv (relay_to fd rcvr message s)"
  by (auto simp: relay_to_def split: option.split intro!: inv_intros)

lemma server_inv_relay [inv_intros]: "server_inv s \<Longrightarrow> server_inv (relay fd rcvr message s)"
  by (auto simp: relay_eq intro!: inv_intros)

lemma server_inv_file_lines [inv_intros]:
  assumes "server_inv s"
  shows "result_inv server_inv (handle_file_transfer fd message s)"
    and "result_inv server_inv (handle_file_request fd message s)"
    and "result_inv server_inv (handle_file_response fd message s)"
    and "result_inv server_inv (handle_file_data fd message s)"
  using assms
  by (auto simp: handle_file_transfer_def handle_file_request_def handle_file_response_def
      handle_file_data_def split: option.split intro!: inv_intros)

text \<open>Marking a message as read leaves the lists as long as they are, and in their rooms.\<close>

lemma length_mark_read [simp]: "length (fst (mark_read mid user ms)) = length ms"
  by (induction ms) (auto split: prod.split)

lemma mark_read_room:
  "wf_room_messages n r ms \<Longrightarrow> wf_room_messages n r (fst (mark_read mid user ms))"
proof -
  have "map (\<lambda>m. (receiver m, msg_type m)) (fst (mark_read mid user ms)) =
        map (\<lambda>m. (receiver m, msg_type m)) ms"
    by (induction ms) (auto split: prod.split)
  moreover have "(\<forall>m \<in> set ms. receiver m = r \<and> msg_type m = ROOM_MESSAGE) \<longleftrightarrow>
      set (map (\<lambda>m. (receiver m, msg_type m)) ms) \<subseteq> {(r, ROOM_MESSAGE)}"
    for ms :: "chat_message list"
    by auto
  ultimately show "wf_room_messages n r ms \<Longrightarrow> wf_room_messages n r (fst (mark_read mid user ms))"
    by (simp only: wf_room_messages_def length_mark_read)
qed

lemma server_inv_notify [inv_intros]: "server_inv s \<Longrightarrow> server_inv (notify_sender m text s)"
  by (auto simp: notify_sender_def split: option.split intro!: inv_intros)

lemma server_inv_receipt_global [inv_intros]:
  assumes "server_inv s"
  shows "server_inv (receipt_global mid user s)"
proof -
  have "server_inv (s\<lparr>message_history := fst (mark_read mid user (message_history s))\<rparr>)"
    using assms by (simp add: server_inv_def wf_defs)
  then show ?thesis
    by (auto simp: receipt_global_def Let_def split: prod.split option.split intro!: inv_intros)
qed

lemma notify_sender_fields [simp]:
  "room_message_history (notify_sender m text s) = room_message_history s"
  "max_history_size (notify_sender m text s) = max_history_size s"
  by (simp_all add: notify_sender_def sendToSocket_eq split: option.split)

lemma server_inv_receipt_room:
  assumes "server_inv s" and "wf_room_messages (max_history_size s) r msgs"
  shows "server_inv (receipt_room mid user s (r, msgs))"
    and "max_history_size (receipt_room mid user s (r, msgs)) = max_history_size s"
proof -
  obtain ms found where mr: "mark_read mid user msgs = (ms, found)" by fastforce
  with assms(2) have "wf_room_messages (max_history_size s) r ms"
    using mark_read_room [of _ r msgs mid user] by simp
  with assms(1) have "server_inv (s\<lparr>room_message_history := AList.update r ms (room_message_history s)\<rparr>)"
    by (simp add: server_inv_def wf_defs)
  then show "server_inv (receipt_room mid user s (r, msgs))"
    by (auto simp: receipt_room_def mr Let_def split: option.split intro!: inv_intros)
  show "max_history_size (receipt_room mid user s (r, msgs)) = max_history_size s"
    by (auto simp: receipt_room_def mr Let_def split: option.split)
qed

lemma server_inv_receipt_rooms:
  "server_inv s \<Longrightarrow> (\<And>r ms. (r, ms) \<in> set es \<Longrightarrow> wf_room_messages (max_history_size s) r ms) \<Longrightarrow>
     server_inv (foldl (receipt_room mid user) s es)"
proof (induction es arbitrary: s)
  case (Cons x es)
  obtain r ms where x: "x = (r, ms)" by fastforce
  note step = server_inv_receipt_room [OF Cons.prems(1), of r ms mid user]
  show ?case using Cons.prems(2) step by (auto simp: x intro!: Cons.IH)
qed simp

lemma server_inv_read_receipt [inv_intros]:
  assumes "server_inv s"
  shows "result_inv server_inv (handle_read_receipt message s)"
proof -
  have "server_inv (foldl (receipt_room mid user) (receipt_global mid user s)
          (room_message_history (receipt_global mid user s)))" for mid user
  proof (rule server_inv_receipt_rooms)
    show inv: "server_inv (receipt_global mid user s)" using assms by (rule server_inv_receipt_global)
    fix r ms assume "(r, ms) \<in> set (room_message_history (receipt_global mid user s))"
    with inv show "wf_room_messages (max_history_size (receipt_global mid user s)) r ms"
      by (auto simp: server_inv_def wf_history_def map_of_eq_Some_iff)
  qed
  with assms show ?thesis
    by (auto simp: handle_read_receipt_def Let_def split: option.split)
qed

subsection \<open>The settled part\<close>

lemma settled_read_loop [settled]:
  assumes "\<And>offset data complete s. settled_part (send offset data complete s) = settled_part s"
  shows "settled_part (read_loop send fsize offset rest s) = settled_part s"
  using read_loop_keeps [where P = "\<lambda>t. settled_part t = settled_part s"] assms by simp

lemma settled_files [settled]:
  "settled_part (handle_transfer fd client iss s) = settled_part s"
  "settled_part (handle_file fd client iss s) = settled_part s"
  by (simp_all add: handle_transfer_def handle_file_def Let_def settled split: option.split prod.split)

lemma settled_relays [settled]:
  "settled_part (relay_to fd rcvr message s) = settled_part s"
  "settled_part (relay fd rcvr message s) = settled_part s"
  by (simp_all add: relay_to_def relay_eq settled split: option.split)

subsection \<open>Properties\<close>

text \<open>The blocks of a file as \<open>read_loop\<close> cuts them: offset, data and the flag.\<close>

function blocks :: "nat \<Rightarrow> nat \<Rightarrow> string \<Rightarrow> (nat \<times> string \<times> bool) list" where
  "blocks fsize offset rest =
     (if rest = [] then []
      else (offset, take buffer_size rest, offset + length (take buffer_size rest) \<ge> fsize)
        # blocks fsize (offset + length (take buffer_size rest)) (drop buffer_size rest))"
  by pat_completeness auto
termination
  by (relation "measure (\<lambda>(fsize, offset, rest). length rest)") (auto simp: buffer_size_def)

declare blocks.simps [simp del]

lemma blocks_Nil [simp]: "blocks fsize offset [] = []"
  by (simp add: blocks.simps)

lemma blocks_eq_Nil [simp]: "blocks fsize offset rest = [] \<longleftrightarrow> rest = []"
  by (simp add: blocks.simps [of fsize offset rest])

lemma read_loop_blocks:
  "read_loop send fsize offset rest s = foldl (\<lambda>s (off, data, c). send off data c s) s (blocks fsize offset rest)"
proof (induction "length rest" arbitrary: offset rest s rule: less_induct)
  case less
  show ?case
  proof (cases "rest = []")
    case False
    then have "length (drop buffer_size rest) < length rest" by (simp add: buffer_size_def)
    from less [OF this] False show ?thesis
      by (simp add: read_loop.simps [of send fsize offset rest s] blocks.simps [of fsize offset rest] Let_def)
  qed (simp add: read_loop.simps)
qed

lemma blocks_cover:
  "offset + length rest = fsize \<Longrightarrow>
     concat (map (\<lambda>(_, data, _). data) (blocks fsize offset rest)) = rest
     \<and> (rest \<noteq> [] \<longrightarrow> map (\<lambda>(_, _, c). c) (blocks fsize offset rest) =
          replicate (length (blocks fsize offset rest) - 1) False @ [True])"
proof (induction "length rest" arbitrary: offset rest rule: less_induct)
  case less
  show ?case
  proof (cases "rest = []")
    case False
    let ?d = "take buffer_size rest" and ?r = "drop buffer_size rest"
    have len: "length ?r < length rest" using False by (simp add: buffer_size_def)
    have off: "offset + length ?d + length ?r = fsize" using less.prems by simp
    note IH = less.hyps [OF len off]
    have b: "blocks fsize offset rest = (offset, ?d, ?r = []) # blocks fsize (offset + length ?d) ?r"
      using False less.prems by (auto simp: blocks.simps [of fsize offset rest])
    show ?thesis
    proof (cases "?r = []")
      case True
      then show ?thesis using IH by (simp add: b)
    next
      case r: False
      then obtain n where n: "length (blocks fsize (offset + length ?d) ?r) = Suc n"
        by (cases "blocks fsize (offset + length ?d) ?r") auto
      have "concat (map (\<lambda>(_, data, _). data) (blocks fsize offset rest)) = ?d @ ?r"
        using IH by (simp only: b) simp
      then show ?thesis using IH r n by (simp only: b) simp
    qed
  qed simp
qed

lemma blocks_bound: "(off, data, c) \<in> set (blocks fsize offset rest) \<Longrightarrow> length data \<le> buffer_size \<and> data \<noteq> []"
proof (induction "length rest" arbitrary: offset rest rule: less_induct)
  case less
  then have "rest \<noteq> []" by auto
  then have "length (drop buffer_size rest) < length rest" by (simp add: buffer_size_def)
  note IH = less.hyps [OF this]
  show ?case
    using less.prems \<open>rest \<noteq> []\<close> IH
    by (auto simp: blocks.simps [of fsize offset rest] buffer_size_def)
qed

text \<open>C27: A transferred file arrives whole: the target is sent the header with name and size, then
  blocks of at most 4096 bytes whose data put together are the file and of which exactly the
  last is flagged complete, and the sender is told; nobody else is written to.\<close>

theorem transfer_sends_file:
  assumes "server_inv s" and "word path" and "word name"
    and "map_of (name_to_socket s) name = Some target" and "disk s path = Some file"
  shows "\<exists>bs. handle_transfer fd client ('' '' @ path @ '' '' @ name) s = s\<lparr>trace := trace s
       @ Send target (encodeFileTransfer (ci_name client) name (file_name_of path) (length file))
       # map (\<lambda>(off, data, c). Send target
           (encodeFileData (ci_name client) name (file_name_of path) off data c)) bs
       @ [Send fd (encodeSuccess (''File transfer started: '' @ file_name_of path))]\<rparr>
     \<and> concat (map (\<lambda>(_, data, _). data) bs) = file
     \<and> list_all (\<lambda>(_, data, _). length data \<le> 4096) bs
     \<and> map (\<lambda>(_, _, c). c) bs = (if file = [] then [] else replicate (length bs - 1) False @ [True])"
proof -
  obtain c where c: "map_of (clients s) target = Some c" "socket_fd c = target" "0 \<le> target"
    using registered_client [OF assms(1,4)] by blast
  have w: "read_word ('' '' @ path @ '' '' @ name) = (path, '' '' @ name)" "read_word ('' '' @ name) = (name, [])"
    and ne: "path \<noteq> []" "name \<noteq> []"
    using assms(2,3) by (auto simp: string_ops)
  have sends: "foldl (\<lambda>s (off, data, c). sendToSocket target (f off data c) s) s bs =
      s\<lparr>trace := trace s @ map (\<lambda>(off, data, c). Send target (f off data c)) bs\<rparr>"
    for f s and bs :: "(nat \<times> string \<times> bool) list"
    by (induction bs arbitrary: s) (auto simp: sendToSocket_eq)
  let ?bs = "blocks (length file) 0 file"
  have "list_all (\<lambda>(_, data, _). length data \<le> 4096) ?bs"
    using blocks_bound [of _ _ _ "length file" 0 "file"] by (auto simp: list_all_iff buffer_size_def)
  moreover have "concat (map (\<lambda>(_, data, _). data) ?bs) = file"
    and "map (\<lambda>(_, _, c). c) ?bs = (if file = [] then [] else replicate (length ?bs - 1) False @ [True])"
    using blocks_cover [of 0 "file" "length file"] by auto
  moreover have "handle_transfer fd client ('' '' @ path @ '' '' @ name) s = s\<lparr>trace := trace s
       @ Send target (encodeFileTransfer (ci_name client) name (file_name_of path) (length file))
       # map (\<lambda>(off, data, c). Send target
           (encodeFileData (ci_name client) name (file_name_of path) off data c)) ?bs
       @ [Send fd (encodeSuccess (''File transfer started: '' @ file_name_of path))]\<rparr>"
    unfolding handle_transfer_def w prod.case Let_def fst_conv
    using assms(4,5) c
    by (simp add: ne getClientByNameUnlocked_def sendToSocket_eq [of fd] read_loop_blocks sends)
       (simp add: sendToSocket_eq)
  ultimately show ?thesis by blast
qed

theorem transfer_sends_file_witness:
  "\<exists>bs. concat (map (\<lambda>(_, data, _). data) bs) = ''h''
    \<and> map (\<lambda>(_, _, c). c) bs = replicate (length bs - 1) False @ [True]
    \<and> trace (handle_transfer 6 (sample_client 6 ''Guest_6'') ('' '' @ ''bob'' @ '' '' @ ''ann'')
        (sample_server\<lparr>disk := [''bob'' \<mapsto> ''h'']\<rparr>)) =
      Send 5 (encodeFileTransfer ''Guest_6'' ''ann'' (file_name_of ''bob'') 1)
      # map (\<lambda>(off, data, c). Send 5 (encodeFileData ''Guest_6'' ''ann'' (file_name_of ''bob'') off data c)) bs
      @ [Send 6 (encodeSuccess (''File transfer started: '' @ file_name_of ''bob''))]"
proof -
  have "server_inv (sample_server\<lparr>disk := [''bob'' \<mapsto> ''h'']\<rparr>)" by (simp add: sample_server_inv)
  from transfer_sends_file [OF this, of "''bob''" "''ann''" 5 "''h''" 6 "sample_client 6 ''Guest_6''"]
  obtain bs where "concat (map (\<lambda>(_, data, _). data) bs) = ''h''"
    and "map (\<lambda>(_, _, c). c) bs = replicate (length bs - 1) False @ [True]"
    and "trace (handle_transfer 6 (sample_client 6 ''Guest_6'') ('' '' @ ''bob'' @ '' '' @ ''ann'')
        (sample_server\<lparr>disk := [''bob'' \<mapsto> ''h'']\<rparr>)) =
      Send 5 (encodeFileTransfer ''Guest_6'' ''ann'' (file_name_of ''bob'') 1)
      # map (\<lambda>(off, data, c). Send 5 (encodeFileData ''Guest_6'' ''ann'' (file_name_of ''bob'') off data c)) bs
      @ [Send 6 (encodeSuccess (''File transfer started: '' @ file_name_of ''bob''))]"
    by auto
  then show ?thesis by blast
qed



end
