(* ===== verification/Framing.thy ===== *)
theory Framing
  imports Prelude
begin

section \<open>Lines out of a byte stream\<close>

text \<open>
  The receive loops of \<open>ChatServer::handleClient\<close> (src/server.cpp) and
  \<open>ChatClient::receiveThread\<close> (src/client.cpp) are the same: append what \<open>recv\<close> returned
  to \<open>received_data\<close>, then cut off one line after the other and hand the non-empty ones
  over. \<open>drain\<close> is that inner loop over an arbitrary line handler; the handler may abort.
\<close>

text \<open>
  \<open>buffer[bytes_read] = 0; received_data += buffer\<close> appends the buffer as a C string: what
  follows the first zero byte of a chunk is lost.
\<close>

definition c_string :: "string \<Rightarrow> string" where
  "c_string chunk = takeWhile (\<lambda>c. c \<noteq> CHR 0x00) chunk"

function drain :: "(string \<Rightarrow> 's \<Rightarrow> 'e + 's) \<Rightarrow> string \<Rightarrow> 's \<Rightarrow> 'e + string \<times> 's" where
  "drain handle received_data s =
     (case find_char newline received_data 0 of
        None \<Rightarrow> Inr (received_data, s)
      | Some pos \<Rightarrow>
          let message = substr received_data 0 pos;
              rest = substr_from received_data (pos + 1)
          in if message = [] then drain handle rest s
             else (case handle message s of
                     Inl e \<Rightarrow> Inl e
                   | Inr s' \<Rightarrow> drain handle rest s'))"
  by pat_completeness auto
termination
  by (relation "measure (\<lambda>(handle, received_data, s). length received_data)")
     (auto simp: substr_from_def dest: find_char_SomeD(2))

declare drain.simps [simp del]

definition receive_chunk ::
  "(string \<Rightarrow> 's \<Rightarrow> 'e + 's) \<Rightarrow> string \<Rightarrow> string \<times> 's \<Rightarrow> 'e + string \<times> 's" where
  "receive_chunk handle chunk st = (case st of (buf, s) \<Rightarrow> drain handle (buf @ c_string chunk) s)"

fun receive_chunks ::
  "(string \<Rightarrow> 's \<Rightarrow> 'e + 's) \<Rightarrow> string list \<Rightarrow> string \<times> 's \<Rightarrow> 'e + string \<times> 's" where
  "receive_chunks handle [] st = Inr st"
| "receive_chunks handle (c # cs) st =
     (case receive_chunk handle c st of Inl e \<Rightarrow> Inl e | Inr st' \<Rightarrow> receive_chunks handle cs st')"

text \<open>The specification: the handler applied to a list of lines, empty ones skipped.\<close>

fun run_lines :: "(string \<Rightarrow> 's \<Rightarrow> 'e + 's) \<Rightarrow> string list \<Rightarrow> 's \<Rightarrow> 'e + 's" where
  "run_lines handle [] s = Inr s"
| "run_lines handle (l # ls) s =
     (if l = [] then run_lines handle ls s
      else case handle l s of Inl e \<Rightarrow> Inl e | Inr s' \<Rightarrow> run_lines handle ls s')"

abbreviation unlines :: "string list \<Rightarrow> string" where
  "unlines ls \<equiv> concat (map (\<lambda>l. l @ [newline]) ls)"

lemma drain_no_newline: "newline \<notin> set buf \<Longrightarrow> drain handle buf s = Inr (buf, s)"
  by (simp add: drain.simps [of handle buf s])

lemma drain_line:
  assumes "newline \<notin> set l"
  shows "drain handle (l @ newline # rest) s =
    (if l = [] then drain handle rest s
     else case handle l s of Inl e \<Rightarrow> Inl e | Inr s' \<Rightarrow> drain handle rest s')"
proof -
  have "find_char newline (l @ newline # rest) 0 = Some (length l)"
    using find_char_append [of "[]" 0 newline l rest] assms by simp
  then show ?thesis
    by (simp add: drain.simps [of handle "l @ newline # rest" s] substr_def substr_from_def)
qed

lemma split_at_newline: "newline \<in> set s \<Longrightarrow> \<exists>l rest. s = l @ newline # rest \<and> newline \<notin> set l"
  by (rule split_list_first)

lemma drain_unlines:
  "(\<And>l. l \<in> set ls \<Longrightarrow> newline \<notin> set l) \<Longrightarrow>
     drain handle (unlines ls @ buf) s =
       (case run_lines handle ls s of Inl e \<Rightarrow> Inl e | Inr s' \<Rightarrow> drain handle buf s')"
  by (induction ls arbitrary: s) (auto simp: drain_line split: sum.splits)

text \<open>What \<open>drain\<close> leaves in the buffer is an unfinished line.\<close>

lemma drain_rest: "drain handle data s = Inr (rest, s') \<Longrightarrow> newline \<notin> set rest"
proof (induction "length data" arbitrary: data s rule: less_induct)
  case less
  show ?case
  proof (cases "newline \<in> set data")
    case True
    then obtain l r where data: "data = l @ newline # r" and l: "newline \<notin> set l"
      using split_at_newline by blast
    have len: "length r < length data" using data by simp
    show ?thesis
      using less.prems less.hyps [OF len] unfolding data drain_line [OF l]
      by (auto split: if_splits sum.splits)
  next
    case False
    with less.prems show ?thesis by (simp add: drain_no_newline)
  qed
qed

text \<open>Draining a longer stream is draining its parts, the unfinished line carried over.\<close>

lemma drain_append:
  "drain handle (a @ b) s =
     (case drain handle a s of Inl e \<Rightarrow> Inl e | Inr (rest, s') \<Rightarrow> drain handle (rest @ b) s')"
proof (induction "length a" arbitrary: a s rule: less_induct)
  case less
  show ?case
  proof (cases "newline \<in> set a")
    case True
    then obtain l r where a: "a = l @ newline # r" and l: "newline \<notin> set l"
      using split_at_newline by blast
    have len: "length r < length a" using a by simp
    have "a @ b = l @ newline # (r @ b)" using a by simp
    then show ?thesis
      using drain_line [OF l, of handle "r @ b" s] drain_line [OF l, of handle r s] a less [OF len]
      by (auto split: sum.splits)
  next
    case False
    then show ?thesis by (simp add: drain_no_newline)
  qed
qed

lemma receive_chunks_drain:
  "newline \<notin> set buf \<Longrightarrow>
     receive_chunks handle cs (buf, s) = drain handle (buf @ concat (map c_string cs)) s"
proof (induction cs arbitrary: buf s)
  case Nil
  then show ?case by (simp add: drain_no_newline)
next
  case (Cons c cs)
  show ?case
  proof (cases "drain handle (buf @ c_string c) s")
    case (Inl e)
    then show ?thesis
      using drain_append [of handle "buf @ c_string c" "concat (map c_string cs)" s]
      by (simp add: receive_chunk_def)
  next
    case (Inr st)
    obtain rest s' where st: "st = (rest, s')" by (cases st)
    have "newline \<notin> set rest" by (rule drain_rest [OF Inr [unfolded st]])
    then show ?thesis
      using Cons.IH Inr st drain_append [of handle "buf @ c_string c" "concat (map c_string cs)" s]
      by (simp add: receive_chunk_def)
  qed
qed

lemma c_string_no_nul: "CHR 0x00 \<notin> set chunk \<Longrightarrow> c_string chunk = chunk"
  by (auto simp: c_string_def takeWhile_eq_all_conv)

lemma receive_chunks_concat:
  assumes "\<And>c. c \<in> set cs \<Longrightarrow> CHR 0x00 \<notin> set c"
  shows "receive_chunks handle cs ([], s) = drain handle (concat cs) s"
proof -
  have "map c_string cs = cs" using assms c_string_no_nul by (simp add: map_idI)
  then show ?thesis by (simp add: receive_chunks_drain)
qed

text \<open>One line, cut into chunks in any way, is handled once and leaves the buffer empty.\<close>

lemma receive_one_line:
  assumes "concat cs = l @ [newline]" and "newline \<notin> set l" and "CHR 0x00 \<notin> set l" and "l \<noteq> []"
  shows "receive_chunks handle cs ([], s) =
    (case handle l s of Inl e \<Rightarrow> Inl e | Inr t \<Rightarrow> Inr ([], t))"
proof -
  have "CHR 0x00 \<notin> set (concat cs)" using assms(1,3) by simp
  then have "receive_chunks handle cs ([], s) = drain handle (concat cs) s"
    by (intro receive_chunks_concat) auto
  then show ?thesis
    using drain_line [OF assms(2), of handle "[]" s] assms(1,4)
    by (simp add: drain_no_newline split: sum.split)
qed

end
