(* ===== verification/Handler.thy ===== *)
theory Handler
  imports Accounts Messaging Moderation File_Transfer Framing
begin

section \<open>Dispatch: handleCommand and handleClient (src/server.cpp)\<close>

text \<open>
  \<open>handle_command\<close> is the chain of comparisons of \<open>handleCommand\<close>; \<open>handle_line\<close> is what
  \<open>handleClient\<close> does with one line, and \<open>handle_input\<close> its receive loop, an instance of the
  loop of theory \<open>Framing\<close>. Every line takes its environment from a sequence.
\<close>

definition help_text :: string where
  "help_text =
     ''Commands:'' @ [newline]
     @ ''  /login <name> [password] (/l)    - Login with a name and optional password'' @ [newline]
     @ ''  /register <name> <password> (/r) - Register a new user'' @ [newline]
     @ ''  /users (/u)           - List online users'' @ [newline]
     @ ''  /whisper <name> <msg> (/w) - Send private message'' @ [newline]
     @ ''  /help (/h)            - Show this help'' @ [newline]
     @ ''  /quit (/q)            - Disconnect'' @ [newline]
     @ ''  /nick <name> (/n)     - Change nickname'' @ [newline]
     @ ''  /info                 - Show server info'' @ [newline]
     @ ''  /createroom <name> [private] [password] (/cr) - Create a chat room'' @ [newline]
     @ ''  /joinroom <name> [password] (/jr) - Join a chat room'' @ [newline]
     @ ''  /leaveroom (/lr)      - Leave current chat room'' @ [newline]
     @ ''  /rooms (/ro)          - List all chat rooms'' @ [newline]
     @ ''  /roommembers (/rm)    - List members in current chat room'' @ [newline]
     @ ''  /transfer <file> <name> (/t) - Transfer file to user'' @ [newline]
     @ ''  /file <file>          - Send file to current chat room'' @ [newline]
     @ ''  /history [count]      - Get message history'' @ [newline]
     @ ''  /roomhistory [count]  - Get current room message history'' @ [newline]
     @ ''  /mute <name> [time]   - Mute user (admin only)'' @ [newline]
     @ ''  /unmute <name>        - Unmute user (admin only)'' @ [newline]
     @ ''  /kick <name> [reason] - Kick user (admin only)'' @ [newline]"

definition handle_help :: "int \<Rightarrow> server \<Rightarrow> server" where
  "handle_help fd s = sendToSocket fd (encodeSystemMessage help_text) s"

definition handle_info :: "int \<Rightarrow> server \<Rightarrow> server" where
  "handle_info fd s =
     sendToSocket fd (encodeSystemMessage
       (''Server Info:'' @ [newline]
        @ ''  Online users: '' @ show_nat (getClientCount s) @ [newline]
        @ ''  Server version: 1.0.0'' @ [newline]
        @ ''  SmallChat - A simple chat server'' @ [newline])) s"

definition handle_command ::
  "env \<Rightarrow> nat \<Rightarrow> int \<Rightarrow> string \<Rightarrow> client_info \<Rightarrow> server \<Rightarrow> result" where
  "handle_command e self fd command client s =
     (let (cmd, iss) = read_word command
      in if cmd = ''/login'' \<or> cmd = ''/l'' then handle_login e fd iss s
         else if cmd = ''/register'' \<or> cmd = ''/r'' then handle_register e fd iss s
         else if cmd = ''/users'' \<or> cmd = ''/u'' then Inr (handle_users fd s)
         else if cmd = ''/whisper'' \<or> cmd = ''/w'' then Inr (handle_whisper e fd client iss s)
         else if cmd = ''/help'' \<or> cmd = ''/h'' then Inr (handle_help fd s)
         else if cmd = ''/quit'' \<or> cmd = ''/q'' then handle_quit self fd client s
         else if cmd = ''/nick'' \<or> cmd = ''/n'' then Inr (handle_nick fd client iss s)
         else if cmd = ''/info'' then Inr (handle_info fd s)
         else if cmd = ''/createroom'' \<or> cmd = ''/cr'' then handle_createroom e fd client iss s
         else if cmd = ''/joinroom'' \<or> cmd = ''/jr'' then handle_joinroom fd client iss s
         else if cmd = ''/leaveroom'' \<or> cmd = ''/lr'' then Inr (handle_leaveroom fd client s)
         else if cmd = ''/rooms'' \<or> cmd = ''/ro'' then Inr (handle_rooms fd s)
         else if cmd = ''/roommembers'' \<or> cmd = ''/rm'' then Inr (handle_roommembers fd client s)
         else if cmd = ''/history'' then Inr (handle_history e fd iss s)
         else if cmd = ''/roomhistory'' then Inr (handle_roomhistory e fd client iss s)
         else if cmd = ''/mute'' then Inr (handle_mute e fd client iss s)
         else if cmd = ''/unmute'' then Inr (handle_unmute e fd client iss s)
         else if cmd = ''/kick'' then handle_kick self fd client iss s
         else if cmd = ''/transfer'' \<or> cmd = ''/t'' then Inr (handle_transfer fd client iss s)
         else if cmd = ''/file'' then Inr (handle_file fd client iss s)
         else Inr (handle_unknown e fd client cmd command s))"

text \<open>One non-empty line, as the loop of \<open>handleClient\<close> cuts it out.\<close>

definition handle_line :: "env \<Rightarrow> nat \<Rightarrow> int \<Rightarrow> string \<Rightarrow> server \<Rightarrow> result" where
  "handle_line e self fd message s =
     (if take 1 message = ''/'' then
        (case getClientBySocket fd s of
           None \<Rightarrow> Inr s
         | Some client \<Rightarrow> handle_command e self fd message client s)
      else if take 3 message = ''MSG'' then Inr (handle_msg e fd message s)
      else if take 13 message = ''FILE_TRANSFER'' then handle_file_transfer fd message s
      else if take 12 message = ''FILE_REQUEST'' then handle_file_request fd message s
      else if take 13 message = ''FILE_RESPONSE'' then handle_file_response fd message s
      else if take 9 message = ''FILE_DATA'' then handle_file_data fd message s
      else if take 12 message = ''READ_RECEIPT'' then handle_read_receipt message s
      else Inr (handle_text e fd message s))"

text \<open>The line handler with its supply of environments, and the bytes of one connection.\<close>

definition handle_next ::
  "(nat \<Rightarrow> env) \<Rightarrow> nat \<Rightarrow> int \<Rightarrow> string \<Rightarrow> nat \<times> server \<Rightarrow> (abort \<times> server) + nat \<times> server" where
  "handle_next envs self fd message st =
     (case handle_line (envs (fst st)) self fd message (snd st) of
        Inl a \<Rightarrow> Inl a
      | Inr s \<Rightarrow> Inr (fst st + 1, s))"

definition handle_input ::
  "(nat \<Rightarrow> env) \<Rightarrow> nat \<Rightarrow> int \<Rightarrow> string \<Rightarrow> string \<times> nat \<times> server
     \<Rightarrow> (abort \<times> server) + string \<times> nat \<times> server" where
  "handle_input envs self fd chunk st = receive_chunk (handle_next envs self fd) chunk st"

subsection \<open>The invariant\<close>

lemma server_inv_help_info [inv_intros]:
  "server_inv s \<Longrightarrow> server_inv (handle_help fd s)"
  "server_inv s \<Longrightarrow> server_inv (handle_info fd s)"
  by (auto simp: handle_help_def handle_info_def intro!: inv_intros)

lemma server_inv_command [inv_intros]:
  assumes "server_inv s"
  shows "result_inv server_inv (handle_command e self fd command client s)"
  using assms unfolding handle_command_def Let_def
  by (simp add: inv_intros split: prod.split)

lemma server_inv_line [inv_intros]:
  assumes "server_inv s"
  shows "result_inv server_inv (handle_line e self fd message s)"
  using assms unfolding handle_line_def
  by (simp add: inv_intros split: option.split)

subsection \<open>Lines that stop a thread\<close>

text \<open>Every account entry has the form that \<open>hashPassword\<close> makes.\<close>

definition users_hashed :: "server \<Rightarrow> bool" where
  "users_hashed s \<longleftrightarrow> (\<forall>n h. map_of (users s) n = Some h \<longrightarrow> wf_hash h)"

lemma users_hashed_settled:
  assumes "settled_part t = settled_part s"
  shows "users_hashed t = users_hashed s"
  unfolding users_hashed_def settledD(5) [OF assms] ..

text \<open>A result that is not an abort.\<close>

lemma isl_try_call: "\<not> isl r \<Longrightarrow> (\<And>x. r = Inr x \<Longrightarrow> \<not> isl (f x)) \<Longrightarrow> \<not> isl (try_call s r f)"
  by (cases r) simp_all

lemma hash_total: "\<not> isl (hashPassword draw p)"
  unfolding hashPassword_eq by simp

lemma login_check_total:
  assumes "users_hashed s"
  shows "\<not> isl (login_check e fd name password s)"
proof (cases "map_of (users s) name")
  case None
  obtain h where "hashPassword (draw_salt e) password = Inr h" using hashPassword_eq by blast
  with None show ?thesis by (simp add: login_check_def)
next
  case (Some h)
  with assms have "wf_hash h" by (simp add: users_hashed_def)
  then obtain b where "verifyPassword password h = Inr b" using verify_wf_total by blast
  with Some show ?thesis by (simp add: login_check_def)
qed

lemma login_total: "users_hashed s \<Longrightarrow> \<not> isl (handle_login e fd iss s)"
  using login_check_total
  by (simp add: handle_login_def Let_def isl_try_call split: prod.split)

lemma register_total: "\<not> isl (handle_register e fd iss s)"
  by (simp add: handle_register_def Let_def isl_try_call hash_total split: prod.split)

lemma createroom_total: "\<not> isl (handle_createroom e fd client iss s)"
  by (simp add: handle_createroom_def Let_def isl_try_call hash_total split: prod.split)

lemma join_refusal_total:
  assumes "wf_room r room"
  shows "\<not> isl (join_refusal room p)"
proof -
  obtain b where "verifyPassword p (room_password room) = Inr b"
    using assms verify_wf_total [of "room_password room" p] verify_no_colon [of "[]" p]
    by (auto simp: wf_room_def)
  then show ?thesis by (simp add: join_refusal_def)
qed

lemma joinroom_total:
  assumes "server_inv s"
  shows "\<not> isl (handle_joinroom fd client iss s)"
proof -
  have "\<not> isl (join_refusal room p)" if "map_of (rooms s) r = Some room" for r room p
    using join_refusal_total [OF known_room [OF assms that]] .
  then show ?thesis
    by (auto simp: handle_joinroom_def Let_def isl_try_call split: prod.split option.split)
qed

lemma stoull_abort: "stoull t = Inl a \<Longrightarrow> a \<in> {Invalid_argument, Out_of_range}"
  by (auto simp: stoull_def Let_def split: option.splits if_splits prod.splits)

lemma file_data_abort:
  "newline \<notin> set l \<Longrightarrow> handle_file_data fd l s = Inl (a, t) \<Longrightarrow> t = s \<and> a \<in> {Invalid_argument, Out_of_range}"
  by (auto simp: handle_file_data_def try_call_def dest!: stoull_abort split: option.splits sum.splits)

lemma file_lines_total:
  "newline \<notin> set l \<Longrightarrow> handle_file_transfer fd l s = Inr s"
  "newline \<notin> set l \<Longrightarrow> handle_file_request fd l s = Inr s"
  "newline \<notin> set l \<Longrightarrow> handle_file_response fd l s = Inr s"
  "newline \<notin> set l \<Longrightarrow> handle_read_receipt l s = Inr s"
  by (auto simp: handle_file_transfer_def handle_file_request_def handle_file_response_def
      handle_read_receipt_def split: option.split)

lemma command_total:
  assumes "server_inv s" and "users_hashed s" and "fst (read_word l) \<notin> {''/quit'', ''/q'', ''/kick''}"
  shows "\<not> isl (handle_command e self fd l c s)"
proof -
  obtain cmd iss where r: "read_word l = (cmd, iss)" by fastforce
  with assms(3) have n: "cmd \<noteq> ''/quit''" "cmd \<noteq> ''/q''" "cmd \<noteq> ''/kick''" by simp_all
  show ?thesis
    unfolding handle_command_def r prod.case Let_def
    by (simp add: n login_total assms register_total createroom_total joinroom_total)
qed

lemma line_aborts:
  assumes "server_inv s" and "users_hashed s" and "newline \<notin> set l"
    and "handle_line e self fd l s = Inl (a, t)"
  shows "fst (read_word l) \<in> {''/quit'', ''/q'', ''/kick''}
    \<or> (take 9 l = ''FILE_DATA'' \<and> a \<in> {Invalid_argument, Out_of_range})"
proof (cases "take 1 l = ''/''")
  case True
  then obtain c where "handle_command e self fd l c s = Inl (a, t)"
    using assms(4) by (auto simp: handle_line_def split: option.splits)
  then have "isl (handle_command e self fd l c s)" by simp
  then show ?thesis using command_total [OF assms(1,2)] by blast
next
  case False
  then have "take 9 l = ''FILE_DATA'' \<and> handle_file_data fd l s = Inl (a, t)"
    using assms(4) by (simp add: handle_line_def file_lines_total [OF assms(3)] split: if_splits)
  then show ?thesis using file_data_abort [OF assms(3)] by blast
qed

subsection \<open>Who changes the settled part\<close>

lemma settled_help_info [settled]:
  "settled_part (handle_help fd s) = settled_part s"
  "settled_part (handle_info fd s) = settled_part s"
  by (simp_all add: handle_help_def handle_info_def settled)

definition account_commands :: "string set" where
  "account_commands = {''/login'', ''/l'', ''/register'', ''/r'', ''/nick'', ''/n''}"

definition leaving_commands :: "string set" where
  "leaving_commands = {''/quit'', ''/q'', ''/kick''}"

lemma in_sixE:
  "c \<in> {a, b, d, e, f, g} \<Longrightarrow> (c = a \<or> c = b \<Longrightarrow> P) \<Longrightarrow> (c = d \<or> c = e \<Longrightarrow> P) \<Longrightarrow>
     (c = f \<or> c = g \<Longrightarrow> P) \<Longrightarrow> P"
  by blast

lemma in_threeE: "c \<in> {a, b, d} \<Longrightarrow> (c = a \<or> c = b \<Longrightarrow> P) \<Longrightarrow> (c = d \<Longrightarrow> P) \<Longrightarrow> P"
  by blast

text \<open>Case distinctions over the commands that touch names and accounts.\<close>

lemma account_commandsE:
  assumes "cmd \<in> account_commands"
  obtains (login) "cmd = ''/login'' \<or> cmd = ''/l''"
    | (register) "cmd = ''/register'' \<or> cmd = ''/r''"
    | (nick) "cmd = ''/nick'' \<or> cmd = ''/n''"
  using assms unfolding account_commands_def by (rule in_sixE)

lemma leaving_commandsE:
  assumes "cmd \<in> leaving_commands"
  obtains (quit) "cmd = ''/quit'' \<or> cmd = ''/q''" | (kick) "cmd = ''/kick''"
  using assms unfolding leaving_commands_def by (rule in_threeE)

text \<open>The dispatch for these commands.\<close>

lemma account_dispatch:
  assumes "read_word l = (cmd, iss)"
  shows "cmd = ''/login'' \<or> cmd = ''/l'' \<Longrightarrow> handle_command e self fd l c s = handle_login e fd iss s"
    and "cmd = ''/register'' \<or> cmd = ''/r'' \<Longrightarrow> handle_command e self fd l c s = handle_register e fd iss s"
    and "cmd = ''/nick'' \<or> cmd = ''/n'' \<Longrightarrow> handle_command e self fd l c s = Inr (handle_nick fd c iss s)"
    and "cmd = ''/quit'' \<or> cmd = ''/q'' \<Longrightarrow> handle_command e self fd l c s = handle_quit self fd c s"
    and "cmd = ''/kick'' \<Longrightarrow> handle_command e self fd l c s = handle_kick self fd c iss s"
  unfolding handle_command_def assms by ((elim disjE; simp) | simp)+

lemma settled_command:
  assumes "fst (read_word l) \<notin> account_commands \<union> leaving_commands"
  shows "settled_result s (handle_command e self fd l c s)"
proof -
  obtain cmd iss where r: "read_word l = (cmd, iss)" by fastforce
  with assms have n: "cmd \<noteq> ''/login''" "cmd \<noteq> ''/l''" "cmd \<noteq> ''/register''" "cmd \<noteq> ''/r''"
    "cmd \<noteq> ''/nick''" "cmd \<noteq> ''/n''" "cmd \<noteq> ''/quit''" "cmd \<noteq> ''/q''" "cmd \<noteq> ''/kick''"
    by (simp_all add: account_commands_def leaving_commands_def)
  show ?thesis
    unfolding handle_command_def r prod.case Let_def
    by (simp add: n settled)
qed

lemma settled_line:
  assumes "take 1 l = ''/'' \<Longrightarrow> fst (read_word l) \<notin> account_commands \<union> leaving_commands"
    and "newline \<notin> set l"
  shows "settled_result s (handle_line e self fd l s)"
proof -
  have "settled_result s (handle_file_data fd l s)"
    using assms(2) file_data_abort [OF assms(2), of fd s]
    by (auto simp: handle_file_data_def try_call_def split: option.split sum.split)
  then show ?thesis
    using assms settled_command
    by (simp add: handle_line_def file_lines_total settled split: option.split)
qed

subsection \<open>Properties\<close>

text \<open>
  A name of another client stays with it: the three commands that give names away do not
  give away a name in use, and \<open>/quit\<close> frees the name of its own client.
\<close>

lemma name_in_use: "server_inv s \<Longrightarrow> map_of (name_to_socket s) n = Some k \<Longrightarrow> getClientByName n s \<noteq> None"
  by (simp add: getClientByName_free)

lemma blocks_keep_name:
  assumes "map_of (clients s) fd = Some c" and "ci_name c \<noteq> n" and "name \<noteq> n"
  shows "map_of (name_to_socket (login_block fd name s)) n = map_of (name_to_socket s) n"
    and "map_of (name_to_socket (nick_block fd name s)) n = map_of (name_to_socket s) n"
  using assms by (simp_all add: login_block_eq nick_block_eq)

lemma login_keeps_name:
  assumes "server_inv s" and "map_of (name_to_socket s) n = Some k"
    and "map_of (clients s) fd = Some c" and "ci_name c \<noteq> n"
  shows "result_inv (\<lambda>t. map_of (name_to_socket t) n = Some k) (handle_login e fd iss s)"
proof -
  have "name \<noteq> n" if "getClientByName name s = None" for name
    using that name_in_use [OF assms(1,2)] by auto
  moreover have "map_of (name_to_socket t) n = Some k \<and> (b \<longrightarrow> map_of (clients t) fd = Some c)"
    if "login_check e fd name password s = Inr (b, t)" for name password b t
    using that assms(2,3)
    by (auto simp: login_check_def handler_defs split: option.splits if_splits sum.splits)
  ultimately show ?thesis
    using assms
    by (auto simp: handle_login_def Let_def login_finish_def handler_defs blocks_keep_name try_call_def
        split: prod.split sum.split)
qed

lemma register_keeps_name:
  assumes "server_inv s" and "map_of (name_to_socket s) n = Some k"
    and "map_of (clients s) fd = Some c" and "ci_name c \<noteq> n"
  shows "result_inv (\<lambda>t. map_of (name_to_socket t) n = Some k) (handle_register e fd iss s)"
proof -
  have "name \<noteq> n" if "getClientByName name s = None" for name
    using that name_in_use [OF assms(1,2)] by auto
  then show ?thesis
    using assms
    by (auto simp: handle_register_def Let_def handler_defs blocks_keep_name try_call_def saveUsers_def
        split: prod.split sum.split)
qed

lemma nick_keeps_name:
  assumes "server_inv s" and "map_of (name_to_socket s) n = Some k"
    and "map_of (clients s) fd = Some c" and "ci_name c \<noteq> n"
  shows "map_of (name_to_socket (handle_nick fd c iss s)) n = Some k"
proof -
  have "name \<noteq> n" if "getClientByName name s = None" for name
    using that name_in_use [OF assms(1,2)] by auto
  then show ?thesis
    using assms by (auto simp: handle_nick_def Let_def handler_defs blocks_keep_name)
qed

lemma remove_client_keeps_name:
  assumes "map_of (name_to_socket s) n = Some k" and "map_of (clients s) fd = Some c" and "ci_name c \<noteq> n"
  shows "result_inv (\<lambda>t. map_of (name_to_socket t) n = Some k) (removeClient self fd s)"
  using assms
  by (cases "map_of (client_threads s) fd")
     (auto simp: removeClient_def Let_def forget_client_def emit_def disconnect_event_def)

lemma quit_keeps_name:
  assumes "map_of (name_to_socket s) n = Some k" and "map_of (clients s) fd = Some c" and "ci_name c \<noteq> n"
  shows "result_inv (\<lambda>t. map_of (name_to_socket t) n = Some k) (handle_quit self fd c s)"
proof -
  have "name_to_socket (remove_member r m t) = name_to_socket t \<and> clients (remove_member r m t) = clients t"
    for r m t
    by (simp add: remove_member_def Let_def split: option.split)
  then have "map_of (name_to_socket t) n = Some k \<and> map_of (clients t) fd = Some c"
    if "t = (if current_room c \<noteq> [] then broadcast m (remove_member r n' s) else s)" for t m r n'
    using that assms(1,2) by (simp add: broadcast_eq)
  then show ?thesis
    using remove_client_keeps_name [OF _ _ assms(3)]
    by (simp add: handle_quit_def Let_def sendToSocket_eq)
qed

lemma settled_keeps_name:
  "settled_result s r \<Longrightarrow> map_of (name_to_socket s) n = Some k \<Longrightarrow>
     result_inv (\<lambda>t. map_of (name_to_socket t) n = Some k) r"
  by (auto simp: settled_result_def result_inv_def dest: settledD(2) split: sum.splits prod.splits)

lemma command_keeps_name:
  assumes "server_inv s" and "map_of (name_to_socket s) n = Some k"
    and "map_of (clients s) fd = Some c" and "ci_name c \<noteq> n" and "fst (read_word l) \<noteq> ''/kick''"
  shows "result_inv (\<lambda>t. map_of (name_to_socket t) n = Some k) (handle_command e self fd l c s)"
proof -
  obtain cmd iss where r: "read_word l = (cmd, iss)" by fastforce
  note dispatch = account_dispatch [OF r, of e self fd c s]
  consider "cmd \<in> account_commands" | "cmd \<in> leaving_commands" | "cmd \<notin> account_commands \<union> leaving_commands"
    by blast
  then show ?thesis
  proof cases
    case 1
    then show ?thesis
      by (cases rule: account_commandsE)
         (simp_all only: dispatch result_inv_simps login_keeps_name [OF assms(1-4)]
            register_keeps_name [OF assms(1-4)] nick_keeps_name [OF assms(1-4)])
  next
    case 2
    then show ?thesis
    proof (cases rule: leaving_commandsE)
      case quit
      show ?thesis unfolding dispatch(4) [OF quit] by (rule quit_keeps_name [OF assms(2-4)])
    next
      case kick
      with assms(5) r show ?thesis by simp
    qed
  next
    case 3
    then have "fst (read_word l) \<notin> account_commands \<union> leaving_commands" by (simp only: r fst_conv) simp
    from settled_keeps_name [OF settled_command [OF this] assms(2)] show ?thesis .
  qed
qed

text \<open>C9: A client keeps its name: whatever line another client sends, other than an
  administrator's \<open>/kick\<close>, a registered name goes on leading to its client (unless the other
  client carries the same name, which the guest names make possible).\<close>

theorem names_are_kept:
  assumes "server_inv s" and "map_of (name_to_socket s) n = Some k"
    and "map_of (clients s) fd = Some c" and "ci_name c \<noteq> n"
    and "newline \<notin> set l" and "fst (read_word l) \<noteq> ''/kick''"
  shows "result_inv (\<lambda>t. map_of (name_to_socket t) n = Some k) (handle_line e self fd l s)"
proof (cases "take 1 l = ''/''")
  case True
  then show ?thesis
    using command_keeps_name [OF assms(1-4,6)] assms(3) by (simp add: handle_line_def getClientBySocket_def)
next
  case False
  then show ?thesis
    using settled_line [of l s e self fd] assms(2,5) by (intro settled_keeps_name) simp_all
qed

theorem names_are_kept_witness:
  "result_inv (\<lambda>t. map_of (name_to_socket t) ''ann'' = Some 5)
     (handle_line sample_env 1 6 ''/nick ann'' sample_server)"
  using names_are_kept [OF sample_server_inv, of "''ann''" 5 6 "sample_client 6 ''Guest_6''" "''/nick ann''"]
  by (simp add: read_word_def is_space_def)

text \<open>The server survives its input: in a state with its invariant and well-formed account
  entries, a line is handled to its end unless it is a \<open>/quit\<close> or a \<open>/kick\<close>, or a
  \<open>FILE_DATA\<close> line whose offset is no number.\<close>

theorem lines_are_survived:
  assumes "server_inv s" and "users_hashed s" and "newline \<notin> set l"
    and "fst (read_word l) \<notin> {''/quit'', ''/q'', ''/kick''}" and "take 9 l \<noteq> ''FILE_DATA''"
  shows "\<exists>t. handle_line e self fd l s = Inr t \<and> server_inv t"
proof (cases "handle_line e self fd l s")
  case (Inl r)
  obtain a t where "r = (a, t)" by fastforce
  with Inl line_aborts [OF assms(1-3), of e self fd a t] assms(4,5) show ?thesis by blast
next
  case (Inr t)
  then show ?thesis using server_inv_line [OF assms(1), of e self fd l] by simp
qed

theorem lines_are_survived_witness:
  "\<exists>t. handle_line sample_env 0 5 ''READ_RECEIPT|x|y'' sample_server = Inr t \<and> server_inv t"
  by (rule lines_are_survived [OF sample_server_inv])
     (simp_all add: users_hashed_def read_word_def is_space_def)

text \<open>The lines a server sees do not depend on how the network cuts the bytes: for text without
  zero bytes, handling the chunks one after the other is handling the lines of the whole.\<close>

theorem chunks_do_not_matter:
  assumes "concat cs = unlines ls" and "list_all (\<lambda>l. newline \<notin> set l) ls"
    and "list_all (\<lambda>c. CHR 0x00 \<notin> set c) cs"
  shows "receive_chunks (handle_next envs self fd) cs ([], st) =
    (case run_lines (handle_next envs self fd) ls st of Inl a \<Rightarrow> Inl a | Inr st' \<Rightarrow> Inr ([], st'))"
proof -
  have "receive_chunks (handle_next envs self fd) cs ([], st) = drain (handle_next envs self fd) (unlines ls @ []) st"
    using receive_chunks_concat [of cs "handle_next envs self fd" st] assms(1,3)
    by (simp add: list_all_iff)
  then show ?thesis
    using drain_unlines [of ls "handle_next envs self fd" "[]" st] assms(2)
    by (simp add: list_all_iff drain_no_newline split: sum.split)
qed

theorem chunks_do_not_matter_witness:
  "receive_chunks (handle_next (\<lambda>_. sample_env) 0 5) [''/us'', ''ers'' @ [newline]] ([], 0, sample_server) =
    (case run_lines (handle_next (\<lambda>_. sample_env) 0 5) [''/users''] (0, sample_server) of
       Inl a \<Rightarrow> Inl a | Inr st' \<Rightarrow> Inr ([], st'))"
  by (rule chunks_do_not_matter) simp_all

end
