(* ===== verification/Lifecycle.thy ===== *)
theory Lifecycle
  imports Handler
begin

section \<open>The life of the server (src/server.cpp)\<close>

text \<open>
  \<open>start\<close>, \<open>acceptConnections\<close>, \<open>handleClient\<close> and \<open>stop\<close>, the step relation in which one
  step is one accepted connection, one line, one disconnection, one call from the WebSocket
  side or the stop, and the states that can be reached by such steps.
\<close>

subsection \<open>start\<close>

text \<open>What the six calls that set the listening socket up return.\<close>

record net =
  socket_ok :: bool
  setsockopt_ok :: bool
  host_ok :: bool
  bind_ok :: bool
  listen_ok :: bool
  nonblock_ok :: bool

definition start :: "env \<Rightarrow> net \<Rightarrow> server \<Rightarrow> (abort \<times> server) + bool \<times> server" where
  "start e n s =
     (if \<not> socket_ok n then Inr (False, s)
      else if \<not> setsockopt_ok n then Inr (False, s)
      else if \<not> host_ok n then Inr (False, s)
      else if \<not> bind_ok n then Inr (False, s)
      else if \<not> listen_ok n then Inr (False, s)
      else if \<not> nonblock_ok n then Inr (False, s)
      else
        let s1 = s\<lparr>running := True\<rparr>;
            s2 = snd (loadUsers ''users.txt'' s1);
            s3 = snd (loadMessageHistory e ''message_history.txt'' s2)
        in if accept_thread s3 then Inl (Terminate, s3)
           else Inr (True, s3\<lparr>accept_thread := True\<rparr>))"

subsection \<open>acceptConnections\<close>

text \<open>
  A connection: the entry in \<open>clients_\<close> first, then the thread, then the welcome and the
  callback. Moving a thread onto a map entry that still holds a joinable one terminates the
  program.
\<close>

definition guest_name :: "int \<Rightarrow> string" where
  "guest_name fd = ''Guest_'' @ show_int fd"

definition accept_client :: "env \<Rightarrow> int \<Rightarrow> string \<Rightarrow> nat \<Rightarrow> server \<Rightarrow> result" where
  "accept_client e fd ip prt s =
     (let client = new_client\<lparr>socket_fd := fd, ci_name := guest_name fd, ip_address := ip,
                     port := prt, connect_time := clock e, is_logged_in := False\<rparr>;
          s1 = s\<lparr>clients := AList.update fd client (clients s)\<rparr>
      in if map_of (client_threads s1) fd \<noteq> None then Inl (Terminate, s1)
         else
           let s2 = s1\<lparr>client_threads := AList.update fd (next_thread s1) (client_threads s1),
                       next_thread := next_thread s1 + 1\<rparr>;
               s3 = sendToSocket fd encodeWelcome s2
           in Inr (if connect_callback s3 then emit (Connect_cb fd (ci_name client)) s3 else s3))"

datatype accept_result = Accepted int string nat | Would_block | Accept_failed

fun acceptConnections :: "(env \<times> accept_result) list \<Rightarrow> server \<Rightarrow> result" where
  "acceptConnections [] s = Inr s"
| "acceptConnections ((e, r) # rs) s =
     (if \<not> running s then Inr s
      else case r of
             Accepted fd ip prt \<Rightarrow>
               (case accept_client e fd ip prt s of
                  Inl a \<Rightarrow> Inl a
                | Inr s1 \<Rightarrow> acceptConnections rs s1)
           | Would_block \<Rightarrow> acceptConnections rs s
           | Accept_failed \<Rightarrow> Inr s)"

subsection \<open>handleClient\<close>

text \<open>
  The receive loop over what \<open>recv\<close> returns (\<open>None\<close>: end of stream or error). Leaving the
  function ends the thread.
\<close>

definition thread_exit :: "nat \<Rightarrow> server \<Rightarrow> server" where
  "thread_exit self s = s\<lparr>exited := self # exited s\<rparr>"

fun handleClient ::
  "(nat \<Rightarrow> env) \<Rightarrow> nat \<Rightarrow> int \<Rightarrow> string option list \<Rightarrow> string \<times> nat \<times> server \<Rightarrow> result" where
  "handleClient envs self fd [] st = Inr (snd (snd st))"
| "handleClient envs self fd (r # rs) st =
     (if \<not> running (snd (snd st)) then Inr (thread_exit self (snd (snd st)))
      else case r of
             None \<Rightarrow>
               (case removeClient self fd (snd (snd st)) of
                  Inl a \<Rightarrow> Inl a
                | Inr s \<Rightarrow> Inr (thread_exit self s))
           | Some chunk \<Rightarrow>
               (case handle_input envs self fd chunk st of
                  Inl a \<Rightarrow> Inl a
                | Inr st' \<Rightarrow> handleClient envs self fd rs st'))"

subsection \<open>stop\<close>

text \<open>
  Saving, closing, forgetting the clients, and joining their threads one after the other
  with \<open>threads_mutex_\<close> held. The argument \<open>left\<close> holds the threads that find \<open>running_\<close>
  cleared and return before they are joined; the first thread that does not stops the loop.
\<close>

definition close_all :: "server \<Rightarrow> server" where
  "close_all s =
     (let s1 = foldl (\<lambda>s (fd, _). emit (Close fd) s) s (clients s)
      in s1\<lparr>clients := [], name_to_socket := []\<rparr>)"

definition stop :: "env \<Rightarrow> nat \<Rightarrow> nat list \<Rightarrow> server \<Rightarrow> result" where
  "stop e self left s =
     (if \<not> running s then Inr s
      else
        let s1 = s\<lparr>running := False\<rparr>;
            s2 = snd (saveUsers e ''users.txt'' s1);
            s3 = snd (saveMessageHistory e ''message_history.txt'' s2);
            s4 = close_all (s3\<lparr>accept_thread := False\<rparr>);
            s5 = s4\<lparr>exited := left @ exited s4\<rparr>
        in case find (\<lambda>(_, t). t \<notin> set (exited s5)) (client_threads s5) of
             None \<Rightarrow> Inr (s5\<lparr>client_threads := []\<rparr>)
           | Some (_, t) \<Rightarrow> if t = self then Inl (Self_join, s5) else Inl (Join_waits t, s5))"

subsection \<open>Steps and reachable states\<close>

text \<open>
  A line or a disconnection is handled by the thread that \<open>client_threads_\<close> has for the
  descriptor. The kernel hands out a descriptor that is not in use by a client.
\<close>

inductive server_step :: "server \<Rightarrow> result \<Rightarrow> bool" where
  accept: "running s \<Longrightarrow> 0 \<le> fd \<Longrightarrow> map_of (clients s) fd = None \<Longrightarrow>
     server_step s (accept_client e fd ip prt s)"
| line: "running s \<Longrightarrow> map_of (client_threads s) fd = Some self \<Longrightarrow> l \<noteq> [] \<Longrightarrow> newline \<notin> set l \<Longrightarrow>
     server_step s (handle_line e self fd l s)"
| disconnect: "map_of (client_threads s) fd = Some self \<Longrightarrow>
     server_step s (removeClient self fd s)"
| web_broadcast: "server_step s (Inr (broadcast m s))"
| web_send: "server_step s (Inr (sendToClient n m s))"
| web_system: "server_step s (Inr (sendSystemMessage m s))"
| web_login: "server_step s (Inr (addWebSocketClient n wsi s))"
| web_logout: "server_step s (Inr (removeWebSocketClient n s))"
| stopping: "server_step s (stop e self left s)"

inductive_cases server_stepE: "server_step s r"

inductive initial :: "server \<Rightarrow> bool" where
  fresh: "initial (new_server files)"
| message_cb: "initial s \<Longrightarrow> initial (setMessageCallback s)"
| connect_cb: "initial s \<Longrightarrow> initial (setConnectCallback s)"
| disconnect_cb: "initial s \<Longrightarrow> initial (setDisconnectCallback s)"
| ws_broadcast_cb: "initial s \<Longrightarrow> initial (setWebSocketBroadcastCallback s)"
| ws_send_cb: "initial s \<Longrightarrow> initial (setWebSocketSendToCallback s)"
| started: "initial s \<Longrightarrow> start e n s = Inr (ok, t) \<Longrightarrow> initial t"

text \<open>Runs of the server, and the states that a run from an initial state can reach.\<close>

inductive steps :: "server \<Rightarrow> server \<Rightarrow> bool" for s where
  steps_none: "steps s s"
| steps_more: "steps s t \<Longrightarrow> server_step t (Inr t') \<Longrightarrow> steps s t'"

definition reachable :: "server \<Rightarrow> bool" where
  "reachable t \<longleftrightarrow> (\<exists>s. initial s \<and> steps s t)"

text \<open>
  A property that every step keeps, also a step that ends in an abort; and one that holds
  initially as well, hence in every reachable state.
\<close>

locale stable_property =
  fixes P :: "server \<Rightarrow> bool"
  assumes P_step: "server_step s r \<Longrightarrow> P s \<Longrightarrow> result_inv P r"
begin

lemma P_steps: "steps s t \<Longrightarrow> P s \<Longrightarrow> P t"
proof (induction rule: steps.induct)
  case (steps_more t t')
  from P_step [OF steps_more.hyps(2) steps_more.IH [OF steps_more.prems]] show ?case by simp
qed

end

locale server_property = stable_property +
  assumes P_initial: "initial s \<Longrightarrow> P s"
begin

lemma P_reachable: "reachable t \<Longrightarrow> P t"
  using P_steps P_initial by (auto simp: reachable_def)

lemma P_after: "reachable t \<Longrightarrow> server_step t r \<Longrightarrow> result_inv P r"
  using P_reachable P_step by blast

end

subsection \<open>The invariant\<close>

lemma server_inv_running [simp]:
  "server_inv (s\<lparr>running := b\<rparr>) = server_inv s"
  "server_inv (s\<lparr>accept_thread := b\<rparr>) = server_inv s"
  "server_inv (s\<lparr>exited := ts\<rparr>) = server_inv s"
  by (simp_all add: server_inv_def wf_defs)

lemma server_inv_callbacks [simp]:
  "server_inv (setMessageCallback s) = server_inv s"
  "server_inv (setConnectCallback s) = server_inv s"
  "server_inv (setDisconnectCallback s) = server_inv s"
  "server_inv (setWebSocketBroadcastCallback s) = server_inv s"
  "server_inv (setWebSocketSendToCallback s) = server_inv s"
  "server_inv (addWebSocketClient n w s) = server_inv s"
  "server_inv (removeWebSocketClient n s) = server_inv s"
  by (simp_all add: server_inv_def wf_defs setMessageCallback_def setConnectCallback_def
      setDisconnectCallback_def setWebSocketBroadcastCallback_def setWebSocketSendToCallback_def
      addWebSocketClient_def removeWebSocketClient_def)

lemma foldl_keeps: "P s \<Longrightarrow> (\<And>s x. P s \<Longrightarrow> P (f s x)) \<Longrightarrow> P (foldl f s xs)"
  by (induction xs arbitrary: s) auto

lemma server_inv_load_user [inv_intros]: "server_inv s \<Longrightarrow> server_inv (load_user l s)"
  by (auto simp: load_user_def split: option.split intro!: inv_intros)

lemma server_inv_load_message [inv_intros]: "server_inv s \<Longrightarrow> server_inv (load_message e l s)"
  by (auto simp: load_message_def split: option.split intro!: inv_intros)

lemma server_inv_load [inv_intros]:
  "server_inv s \<Longrightarrow> server_inv (snd (loadUsers f s))"
  "server_inv s \<Longrightarrow> server_inv (snd (loadMessageHistory e f s))"
  by (auto simp: loadUsers_def loadMessageHistory_def split: option.split
      intro!: foldl_keeps [where P = server_inv] inv_intros)

lemma server_inv_save [inv_intros]:
  "server_inv s \<Longrightarrow> server_inv (snd (saveMessageHistory e f s))"
  by (simp add: saveMessageHistory_def)

lemma server_inv_start:
  assumes "start e n s = Inr (ok, t)" and "server_inv s"
  shows "server_inv t"
proof -
  have "server_inv (snd (loadMessageHistory e f (snd (loadUsers g (s\<lparr>running := True\<rparr>)))))" for f g
    using assms(2) by (intro inv_intros) simp
  then show ?thesis using assms by (auto simp: start_def Let_def split: if_splits)
qed

lemma server_inv_new_client:
  assumes "server_inv s" and "0 \<le> fd" and "map_of (clients s) fd = None" and "socket_fd c = fd"
    and threads: "distinct (map fst ts)" "distinct (map snd ts)" "\<forall>t \<in> snd ` set ts. t < n"
      "insert fd (fst ` set (client_threads s)) \<subseteq> fst ` set ts"
  shows "server_inv (s\<lparr>clients := AList.update fd c (clients s), client_threads := ts,
                       next_thread := n\<rparr>)" (is "server_inv ?t")
proof -
  have "wf_clients ?t"
    using assms(1,2,4) by (auto simp: server_inv_def wf_clients_def split: if_splits)
  moreover have "wf_names ?t" unfolding wf_names_def
  proof (intro conjI allI impI)
    show "distinct (map fst (name_to_socket ?t))" using assms(1) by (simp add: server_inv_def wf_names_def)
    fix m k assume "map_of (name_to_socket ?t) m = Some k"
    then obtain c' where "map_of (clients s) k = Some c'" "ci_name c' = m"
      using assms(1) by (auto elim: registered_client)
    with assms(3) show "\<exists>c. map_of (clients ?t) k = Some c \<and> ci_name c = m" by auto
  qed
  moreover have "fst ` set (clients ?t) \<subseteq> fst ` set ts"
    using threads(4) clients_have_threads [OF assms(1)] by (simp add: AList.dom_update) blast
  then have "wf_threads ?t"
    using threads(1-3) by (simp add: wf_threads_def)
  ultimately show ?thesis
    using assms(1) by (simp add: server_inv_def wf_rooms_def wf_history_def)
qed

lemma server_inv_accept:
  assumes "server_inv s" and "0 \<le> fd" and "map_of (clients s) fd = None"
  shows "result_inv server_inv (accept_client e fd ip prt s)"
proof (cases "map_of (client_threads s) fd")
  case (Some t)
  then have "fd \<in> fst ` set (client_threads s)" by (force dest: map_of_SomeD)
  then have "server_inv (s\<lparr>clients := AList.update fd c (clients s),
      client_threads := client_threads s, next_thread := next_thread s\<rparr>)"
    if "socket_fd c = fd" for c
    using assms that by (intro server_inv_new_client) (simp_all add: server_inv_def wf_threads_def insert_absorb)
  then show ?thesis
    using Some by (simp add: accept_client_def Let_def new_client_def)
next
  case None
  let ?ts = "AList.update fd (next_thread s) (client_threads s)"
  have keep: "(k, t) \<in> set (client_threads s) \<Longrightarrow> t < next_thread s" for k t
    using assms(1) by (auto simp: server_inv_def wf_threads_def)
  have ts: "?ts = client_threads s @ [(fd, next_thread s)]"
    using None by (rule update_absent)
  have "server_inv (s\<lparr>clients := AList.update fd c (clients s), client_threads := ?ts,
                      next_thread := next_thread s + 1\<rparr>)"
    if "socket_fd c = fd" for c
    using assms that None keep
    by (intro server_inv_new_client)
       (auto simp: server_inv_def wf_threads_def ts map_of_eq_None_iff less_Suc_eq)
  then show ?thesis
    using None by (auto simp: accept_client_def Let_def new_client_def intro!: inv_intros)
qed

lemma close_all_eq:
  "close_all s = s\<lparr>trace := trace s @ map (\<lambda>(fd, _). Close fd) (clients s),
                    clients := [], name_to_socket := []\<rparr>"
proof -
  have "foldl (\<lambda>s (fd, _). emit (Close fd) s) s cs =
        s\<lparr>trace := trace s @ map (\<lambda>(fd, _). Close fd) cs\<rparr>" for cs :: "(int \<times> client_info) list"
    by (induction cs arbitrary: s) (auto simp: emit_def)
  then show ?thesis by (simp add: close_all_def Let_def)
qed

lemma server_inv_stop [inv_intros]:
  assumes "server_inv s"
  shows "result_inv server_inv (stop e self left s)"
proof -
  have cleared: "server_inv (s\<lparr>accept_thread := False, trace := t, clients := [], name_to_socket := []\<rparr>)"
    "server_inv (s\<lparr>accept_thread := False, trace := t, clients := [], name_to_socket := [],
                   exited := x, client_threads := []\<rparr>)"
    if "server_inv s" for s t x
    using that by (simp_all add: server_inv_def wf_defs)
  have "server_inv (snd (saveMessageHistory e f (snd (saveUsers e g (s\<lparr>running := False\<rparr>)))))" for f g
    using assms by (intro inv_intros) simp
  then show ?thesis
    using assms by (auto simp: stop_def Let_def close_all_eq cleared split: option.split)
qed

interpretation tables: server_property server_inv
proof unfold_locales
  fix s r assume "server_step s r" and "server_inv s"
  then show "result_inv server_inv r"
    by (cases rule: server_step.cases) (auto intro!: inv_intros server_inv_accept
        simp: sendToClient_def sendSystemMessage_def foldl_sends split: option.split)
next
  fix s assume "initial s"
  then show "server_inv s" by induction (auto intro!: inv_intros elim: server_inv_start)
qed

subsection \<open>Account entries\<close>

lemma users_hashed_frames [simp]:
  "users_hashed (s\<lparr>trace := t\<rparr>) = users_hashed s"
  "users_hashed (s\<lparr>disk := d\<rparr>) = users_hashed s"
  "users_hashed (login_block fd name s) = users_hashed s"
  "users_hashed (nick_block fd name s) = users_hashed s"
  by (cases "map_of (clients s) fd"; simp add: users_hashed_def block_absent login_block_eq nick_block_eq)+

lemma users_hashed_add: "users_hashed s \<Longrightarrow> wf_hash h \<Longrightarrow> users_hashed (s\<lparr>users := AList.update n h (users s)\<rparr>)"
  by (simp add: users_hashed_def)

lemma login_check_hashed:
  "login_check e fd name password s = Inr (b, t) \<Longrightarrow> users_hashed s \<Longrightarrow> users_hashed t"
  by (auto simp: login_check_def sendToSocket_eq users_hashed_add dest: wf_hash_hashPassword
      split: option.splits if_splits sum.splits)

lemma account_commands_hashed:
  assumes "users_hashed s"
  shows "result_inv users_hashed (handle_login e fd iss s)"
    and "result_inv users_hashed (handle_register e fd iss s)"
    and "users_hashed (handle_nick fd client iss s)"
proof -
  show "result_inv users_hashed (handle_login e fd iss s)"
    using assms login_check_hashed [of e fd _ _ s]
    by (auto simp: handle_login_def Let_def login_finish_def primitive_eqs(1,2) try_call_def
        split: prod.split sum.split)
  show "result_inv users_hashed (handle_register e fd iss s)"
    using assms wf_hash_hashPassword
    by (auto simp: handle_register_def Let_def primitive_eqs(1,2) try_call_def saveUsers_def users_hashed_add
        split: prod.split sum.split)
  show "users_hashed (handle_nick fd client iss s)"
    using assms by (simp add: handle_nick_def Let_def primitive_eqs(1,2))
qed

lemma users_same: "users t = users s \<Longrightarrow> users_hashed t = users_hashed s"
  by (simp add: users_hashed_def)

lemma removeClient_users: "result_inv (\<lambda>t. users t = users s) (removeClient self fd s)"
  by (cases "map_of (clients s) fd"; cases "map_of (client_threads s) fd")
     (auto simp: removeClient_def Let_def forget_client_def emit_def disconnect_event_def)

lemma leaving_commands_users:
  "result_inv (\<lambda>t. users t = users s) (handle_quit self fd c s)"
  "result_inv (\<lambda>t. users t = users s) (handle_kick self fd c iss s)"
proof -
  have rm: "users (remove_member r n t) = users t" for r n t
    by (simp add: remove_member_def Let_def split: option.split)
  have step: "result_inv (\<lambda>t. users t = users s) (removeClient self k t)" if "users t = users s" for k t
    using removeClient_users [of t self k] that by simp
  show "result_inv (\<lambda>t. users t = users s) (handle_quit self fd c s)"
    by (simp add: handle_quit_def Let_def primitive_eqs(1,2) rm step)
  show "result_inv (\<lambda>t. users t = users s) (handle_kick self fd c iss s)"
    by (simp add: handle_kick_def closeClientSocket_def Let_def primitive_eqs(1,2) step
        split: prod.split option.split)
qed

lemma command_hashed:
  assumes "users_hashed s"
  shows "result_inv users_hashed (handle_command e self fd l c s)"
proof -
  obtain cmd iss where r: "read_word l = (cmd, iss)" by fastforce
  note dispatch = account_dispatch [OF r, of e self fd c s]
  have same: "result_inv users_hashed r" if "result_inv (\<lambda>t. users t = users s) r" for r
    using that assms users_same by (elim result_inv_mono) blast
  consider "cmd \<in> account_commands" | "cmd \<in> leaving_commands" | "cmd \<notin> account_commands \<union> leaving_commands"
    by blast
  then show ?thesis
  proof cases
    case 1
    then show ?thesis
      by (cases rule: account_commandsE)
         (simp_all only: dispatch result_inv_simps account_commands_hashed [OF assms])
  next
    case 2
    then show ?thesis
      by (cases rule: leaving_commandsE)
         (simp_all only: dispatch same [OF leaving_commands_users(1)] same [OF leaving_commands_users(2)])
  next
    case 3
    then have "fst (read_word l) \<notin> account_commands \<union> leaving_commands" by (simp only: r fst_conv) simp
    from settled_command [OF this, of s e self fd c] show ?thesis
      unfolding settled_result_def using assms users_hashed_settled by (elim result_inv_mono) blast
  qed
qed

lemma line_hashed:
  assumes "users_hashed s" and "newline \<notin> set l"
  shows "result_inv users_hashed (handle_line e self fd l s)"
proof (cases "take 1 l = ''/''")
  case True
  then show ?thesis
    using command_hashed [OF assms(1)] assms(1) by (simp add: handle_line_def split: option.split)
next
  case False
  then have "settled_result s (handle_line e self fd l s)"
    using settled_line [of l s e self fd] assms(2) by simp
  then show ?thesis
    unfolding settled_result_def using assms(1) users_hashed_settled by (elim result_inv_mono) blast
qed

lemma other_steps_users:
  "result_inv (\<lambda>t. users t = users s) (accept_client e fd ip prt s)"
  "users (broadcast m s) = users s" "users (sendToClient n m s) = users s"
  "users (sendSystemMessage m s) = users s"
  "users (addWebSocketClient n wsi s) = users s" "users (removeWebSocketClient n s) = users s"
  "result_inv (\<lambda>t. users t = users s) (stop e self left s)"
  by (simp_all add: accept_client_def Let_def primitive_eqs(1,2) emit_def sendToClient_def
      sendSystemMessage_eq addWebSocketClient_def removeWebSocketClient_def stop_def
      close_all_eq saveUsers_def saveMessageHistory_def split: option.split)

interpretation accounts: stable_property users_hashed
proof unfold_locales
  fix s r assume step: "server_step s r" and hashed: "users_hashed s"
  have same: "result_inv users_hashed r" if "result_inv (\<lambda>t. users t = users s) r" for r
    using that hashed users_same by (elim result_inv_mono) blast
  from step show "result_inv users_hashed r"
  proof (cases rule: server_step.cases)
    case (line fd self l e)
    then show ?thesis using line_hashed [OF hashed] by simp
  next
    case (disconnect fd self)
    then show ?thesis using same [OF removeClient_users] by simp
  qed (use same [OF other_steps_users(1)] same [OF other_steps_users(7)] hashed
         other_steps_users(2-6) [THEN users_same] in simp_all)
qed

subsection \<open>Properties\<close>

text \<open>A small run for the witnesses: a server without files, started, with one connection.\<close>

definition good_net :: net where
  "good_net = \<lparr>socket_ok = True, setsockopt_ok = True, host_ok = True, bind_ok = True,
     listen_ok = True, nonblock_ok = True\<rparr>"

definition started_server :: server where
  "started_server = (new_server Map.empty)\<lparr>running := True, accept_thread := True\<rparr>"

lemma started_server_eq: "start sample_env good_net (new_server Map.empty) = Inr (True, started_server)"
  by (simp add: started_server_def start_def good_net_def Let_def loadUsers_def loadMessageHistory_def
      new_server_def)

lemma started_initial: "initial started_server"
  by (rule initial.started [OF initial.fresh started_server_eq])

definition one_client :: server where
  "one_client = result_state (accept_client sample_env 5 ''127.0.0.1'' 4000 started_server)"

lemma one_client_step: "server_step started_server (Inr one_client)"
proof -
  have "server_step started_server (accept_client sample_env 5 ''127.0.0.1'' 4000 started_server)"
    by (rule server_step.accept) (simp_all add: started_server_def new_server_def)
  moreover have "accept_client sample_env 5 ''127.0.0.1'' 4000 started_server = Inr one_client"
    by (simp add: one_client_def accept_client_def Let_def started_server_def new_server_def
        result_state_def)
  ultimately show ?thesis by simp
qed

lemma one_client_steps: "steps started_server one_client"
  using steps.steps_more [OF steps.steps_none one_client_step] .

lemma one_client_fields:
  "running one_client" "map fst (clients one_client) = [5]" "exited one_client = []"
  "client_threads one_client = [(5, 0)]" "users one_client = []" "message_history one_client = []"
  by (simp_all add: one_client_def accept_client_def Let_def started_server_def new_server_def
      result_state_def sendToSocket_eq)

text \<open>C3: The tables stay consistent: in every state that the server can reach, and after any
  further connection, line, disconnection, WebSocket call or stop, also one that ends in an
  abort, every registered name leads to the client that carries it, clients are filed under
  their descriptors and have a thread, rooms are non-empty and list nobody twice, and the
  histories are within their bounds and sorted by room.\<close>

theorem reachable_invariant:
  assumes "reachable s" and "server_step s r"
  shows "server_inv s \<and> result_inv server_inv r"
  using tables.P_reachable [OF assms(1)] tables.P_after [OF assms] by blast

theorem reachable_invariant_witness: "server_inv started_server \<and> server_inv one_client"
proof -
  have "reachable started_server"
    unfolding reachable_def using started_initial steps.steps_none by blast
  from reachable_invariant [OF this one_client_step] show ?thesis by simp
qed

text \<open>The histories are bounded: no reachable state holds more than 1000 messages in the
  global history or in the history of a room, and a room's history has that room's messages
  only.\<close>

theorem history_bounded:
  assumes "reachable s"
  shows "length (message_history s) \<le> 1000
    \<and> (case map_of (room_message_history s) r of
         None \<Rightarrow> True
       | Some ms \<Rightarrow> length ms \<le> 1000 \<and> list_all (\<lambda>m. receiver m = r \<and> msg_type m = ROOM_MESSAGE) ms)"
proof -
  have h: "wf_history s" using tables.P_reachable [OF assms] by (simp add: server_inv_def)
  then have "length (message_history s) \<le> 1000" by (auto simp: wf_history_def)
  moreover have "length ms \<le> 1000 \<and> list_all (\<lambda>m. receiver m = r \<and> msg_type m = ROOM_MESSAGE) ms"
    if "map_of (room_message_history s) r = Some ms" for ms
    using h that by (fastforce simp: wf_history_def wf_room_messages_def list_all_iff)
  ultimately show ?thesis by (simp split: option.split)
qed

theorem history_bounded_witness: "length (message_history one_client) \<le> 1000"
proof -
  have "reachable one_client"
    unfolding reachable_def using started_initial one_client_steps by blast
  from history_bounded [OF this] show ?thesis by simp
qed





lemma accept_thread_loads [simp]:
  "accept_thread (snd (loadUsers f s)) = accept_thread s"
  "accept_thread (snd (loadMessageHistory e f s)) = accept_thread s"
proof -
  have "accept_thread (load_user l s) = accept_thread s" "accept_thread (load_message e l s) = accept_thread s" for l s
    by (auto simp: load_user_def load_message_def addMessageToHistory_def Let_def split: option.split prod.split)
  then have "accept_thread (foldl (\<lambda>s l. load_user l s) s ls) = accept_thread s"
    "accept_thread (foldl (\<lambda>s l. load_message e l s) s ls) = accept_thread s" for ls
    by (induction ls arbitrary: s) simp_all
  then show "accept_thread (snd (loadUsers f s)) = accept_thread s"
    "accept_thread (snd (loadMessageHistory e f s)) = accept_thread s"
    by (simp_all add: loadUsers_def loadMessageHistory_def split: option.split)
qed

lemma fresh_start: "\<exists>s'. start e good_net (new_server files) = Inr (True, s')"
proof -
  have "\<not> accept_thread (snd (loadMessageHistory e f (snd (loadUsers g (new_server files\<lparr>running := True\<rparr>)))))" for f g
    by (simp add: new_server_def)
  then show ?thesis by (simp add: start_def good_net_def Let_def)
qed

lemma stop_saves:
  assumes "running s" and "\<And>f. can_write e f"
  shows "disk (result_state (stop e self left s)) =
    (disk s)(''users.txt'' \<mapsto> concat (map user_line (users s)),
       ''message_history.txt'' \<mapsto> concat (map encode (message_history s)))"
  using assms
  by (simp add: stop_def Let_def saveUsers_def saveMessageHistory_def close_all_eq result_state_def
      split: option.split)

lemma store_users_frame:
  "disk (foldl (\<lambda>s x. store_user x s) t us) = disk t
     \<and> message_history (foldl (\<lambda>s x. store_user x s) t us) = message_history t
     \<and> max_history_size (foldl (\<lambda>s x. store_user x s) t us) = max_history_size t"
  by (induction us arbitrary: t) (simp_all add: store_user_def)

lemma restart_loads:
  assumes "running s" and "\<And>f. can_write e f" and "server_inv s"
    and "list_all user_ok (users s)" and "list_all storable (message_history s)"
    and "start e' good_net (new_server (disk (result_state (stop e self left s)))) = Inr (ok, s')"
  shows "users s' = users s \<and> message_history s' = map (received (clock e')) (message_history s)"
proof -
  note disk = stop_saves [OF assms(1,2), of self left]
  let ?d = "(disk s)(''users.txt'' \<mapsto> concat (map user_line (users s)),
               ''message_history.txt'' \<mapsto> concat (map encode (message_history s)))"
  define s1 where "s1 = (new_server ?d)\<lparr>running := True\<rparr>"
  define s2 where "s2 = foldl (\<lambda>s x. store_user x s) s1 (users s)"
  have "disk s2 = disk s1 \<and> message_history s2 = [] \<and> max_history_size s2 = 1000"
    using store_users_frame [of s1 "users s"] by (simp add: s2_def s1_def new_server_def)
  moreover have "snd (loadUsers ''users.txt'' s1) = s2"
    by (simp add: loadUsers_def s1_def new_server_def s2_def load_saved_users [OF assms(4)])
  moreover have "disk s1 ''message_history.txt'' = Some (concat (map encode (message_history s)))"
    by (simp add: s1_def new_server_def)
  ultimately have loaded: "disk s2 ''message_history.txt'' = Some (concat (map encode (message_history s)))"
    and s2: "snd (loadUsers ''users.txt'' s1) = s2" "message_history s2 = []" "max_history_size s2 = 1000"
    by simp_all
  let ?l = "snd (loadMessageHistory e' ''message_history.txt'' (snd (loadUsers ''users.txt'' s1)))"
  have same: "users s' = users ?l" "message_history s' = message_history ?l"
    using assms(6) unfolding disk by (auto simp: start_def good_net_def Let_def s1_def split: if_splits)
  have l: "?l = foldl (\<lambda>s m. addMessageToHistory m s) s2 (map (received (clock e')) (message_history s))"
    by (simp only: s2(1) loadMessageHistory_def loaded option.case snd_conv load_saved_messages [OF assms(5)])
  have "users s' = users s2"
    unfolding same(1) l by (rule users_adds)
  also have "\<dots> = users s"
    using foldl_update_fresh [of "[]" "users s"] assms(3)
    by (simp add: s2_def users_store server_inv_def s1_def new_server_def)
  finally have "users s' = users s" .
  moreover have "message_history s' = map (received (clock e')) (message_history s)"
    using assms(3) s2(2,3)
    unfolding same(2) l message_history_adds
    by (subst foldl_push_bounded) (auto simp: server_inv_def wf_history_def)
  ultimately show ?thesis ..
qed

text \<open>C15: What \<open>stop\<close> has saved, a new server finds: whether or not the joins of \<open>stop\<close> return,
  a server started on the files it left has the same accounts and the same messages (up to
  their times), when every name and message fits on its line.\<close>

theorem restart_restores:
  assumes "running s" and "\<And>f. can_write e f" and "server_inv s"
    and "list_all user_ok (users s)" and "list_all storable (message_history s)"
  shows "\<exists>s'. start e' good_net (new_server (disk (result_state (stop e self left s)))) = Inr (True, s')
    \<and> users s' = users s \<and> message_history s' = map (received (clock e')) (message_history s)"
  using fresh_start restart_loads [OF assms] by blast

theorem restart_restores_witness:
  "\<exists>s'. start sample_env good_net (new_server (disk (result_state (stop sample_env 9 []
      (sample_server\<lparr>users := [(''ann'', ''0a:1b'')]\<rparr>))))) = Inr (True, s') \<and> users s' = [(''ann'', ''0a:1b'')]"
proof -
  have "server_inv (sample_server\<lparr>users := [(''ann'', ''0a:1b'')]\<rparr>)"
    using server_inv_users [OF sample_server_inv, of "''ann''" "''0a:1b''"] by simp
  then show ?thesis
    using restart_restores [of "sample_server\<lparr>users := [(''ann'', ''0a:1b'')]\<rparr>" sample_env sample_env 9 "[]"]
    by (simp add: sample_env_def user_ok_def) blast
qed

end
