(* ===== verification/Web.thy ===== *)
theory Web
  imports Lifecycle
begin

section \<open>The WebSocket side (src/web_server.cpp, src/web_server_impl.cpp)\<close>

text \<open>
  The sessions of the WebSocket server and the handling of their messages. A session is an
  identity with the name it has logged in under (empty before); \<open>g_ws_sessions\<close> maps a name
  to a session. The first part is the variant on libwebsockets, which the build uses; the
  variant on Boost.Beast registers its names with the chat server too and queues its writes.
  Both libraries' own operations (\<open>lws_write\<close>, \<open>async_write\<close>) are events.
\<close>

datatype ws_event = Ws_write nat string | Ws_close nat

record web =
  usernames :: "(nat \<times> string) list"
  ws_sessions :: "(string \<times> nat) list"
  chat :: server
  ws_out :: "ws_event list"

definition ws_write :: "nat \<Rightarrow> string \<Rightarrow> web \<Rightarrow> web" where
  "ws_write wsi m w = w\<lparr>ws_out := ws_out w @ [Ws_write wsi m]\<rparr>"

definition username_of :: "nat \<Rightarrow> web \<Rightarrow> string" where
  "username_of wsi w = (case map_of (usernames w) wsi of Some n \<Rightarrow> n | None \<Rightarrow> [])"

definition websocket_broadcast :: "string \<Rightarrow> web \<Rightarrow> web" where
  "websocket_broadcast m w = foldl (\<lambda>w (_, wsi). ws_write wsi m w) w (ws_sessions w)"

definition websocket_send_to :: "string \<Rightarrow> string \<Rightarrow> web \<Rightarrow> web" where
  "websocket_send_to client_name m w =
     (case map_of (ws_sessions w) client_name of
        Some wsi \<Rightarrow> ws_write wsi m w
      | None \<Rightarrow> w)"

text \<open>
  \<open>ChatServer::broadcast\<close> with the callback installed: the TCP clients, then every session.
\<close>

definition server_broadcast :: "string \<Rightarrow> web \<Rightarrow> web" where
  "server_broadcast m w =
     (let w1 = w\<lparr>chat := broadcast m (chat w)\<rparr>
      in if websocket_broadcast_callback (chat w) then websocket_broadcast m w1 else w1)"

subsection \<open>Messages of a session\<close>

text \<open>The command word: up to the first blank.\<close>

definition ws_command :: "string \<Rightarrow> string" where
  "ws_command message =
     (case find_char (CHR '' '') message 0 of
        None \<Rightarrow> message
      | Some space_pos \<Rightarrow> substr message 0 space_pos)"

text \<open>\<open>message.substr(7)\<close> throws when the message is shorter than seven characters.\<close>

definition ws_login_name :: "string \<Rightarrow> abort + string" where
  "ws_login_name message =
     (case substr_checked message 7 of
        Inl a \<Rightarrow> Inl a
      | Inr username \<Rightarrow>
          Inr (case find_char (CHR '' '') username 0 of
                 None \<Rightarrow> username
               | Some end_pos \<Rightarrow> substr username 0 end_pos))"

definition user_list_text :: "server \<Rightarrow> string" where
  "user_list_text s =
     (let names = map ci_name (getClients s)
      in ''[Users] Online: '' @ concat (map (\<lambda>i. names ! i @ (if i < length names - 1 then '', '' else []))
           [0..<length names]))"

definition ws_login :: "nat \<Rightarrow> string \<Rightarrow> web \<Rightarrow> abort + web" where
  "ws_login wsi message w =
     (case ws_login_name message of
        Inl a \<Rightarrow> Inl a
      | Inr username \<Rightarrow>
          if getClientByName username (chat w) \<noteq> None then
            Inr (ws_write wsi ''[SYS] Error: Name already taken'' w)
          else
            let w1 = w\<lparr>usernames := AList.update wsi username (usernames w)\<rparr>;
                w2 = w1\<lparr>ws_sessions := AList.update username wsi (ws_sessions w1)\<rparr>;
                w3 = ws_write wsi (''[SYS] Welcome, '' @ username @ ''! You are logged in.'') w2
            in Inr (server_broadcast (''[SYS] '' @ username @ '' joined the chat via WebSocket'') w3))"

definition ws_quit :: "nat \<Rightarrow> web \<Rightarrow> web" where
  "ws_quit wsi w =
     (let name = username_of wsi w;
          w1 = (if name \<noteq> [] then
                  (let w2 = server_broadcast (''[SYS] '' @ name @ '' left the chat'') w
                   in w2\<lparr>ws_sessions := AList.delete name (ws_sessions w2),
                         usernames := AList.update wsi [] (usernames w2)\<rparr>)
                else w)
      in w1\<lparr>ws_out := ws_out w1 @ [Ws_close wsi]\<rparr>)"

definition ws_receive :: "nat \<Rightarrow> string \<Rightarrow> web \<Rightarrow> abort + web" where
  "ws_receive wsi message w =
     (if take 1 message = ''/'' then
        (let cmd = ws_command message
         in if cmd = ''/login'' then ws_login wsi message w
            else if cmd = ''/quit'' then Inr (ws_quit wsi w)
            else if cmd = ''/users'' then Inr (ws_write wsi (user_list_text (chat w)) w)
            else Inr (server_broadcast message w))
      else if username_of wsi w \<noteq> [] then
        Inr (server_broadcast (''['' @ username_of wsi w @ '']: '' @ message) w)
      else Inr (ws_write wsi ''[SYS] Please login first using /login <name>'' w))"

definition ws_closed :: "nat \<Rightarrow> web \<Rightarrow> web" where
  "ws_closed wsi w =
     (let name = username_of wsi w
      in if name \<noteq> [] then
           (let w1 = server_broadcast (''[SYS] '' @ name @ '' left the chat'') w
            in w1\<lparr>ws_sessions := AList.delete name (ws_sessions w1)\<rparr>)
         else w)"

datatype ws_reason = Established | Receive string | Closed | Other_reason

definition callback_websocket :: "nat \<Rightarrow> ws_reason \<Rightarrow> web \<Rightarrow> abort + web" where
  "callback_websocket wsi reason w =
     (case reason of
        Established \<Rightarrow> Inr w
      | Receive message \<Rightarrow> ws_receive wsi message w
      | Closed \<Rightarrow> Inr (ws_closed wsi w)
      | Other_reason \<Rightarrow> Inr w)"

text \<open>
  The callback of the HTTP protocol: the page, whatever was asked for. The page is an
  argument here; Web_Page has the one of the source.
\<close>

datatype http_out = Http_write string | Http_completed

definition callback_http :: "string \<Rightarrow> bool \<Rightarrow> http_out list" where
  "callback_http html_page http_request =
     (if http_request then [Http_write html_page, Http_completed] else [])"

text \<open>\<open>WebServer::start\<close>: the callbacks are installed whether or not the context is created.\<close>

definition web_start :: "bool \<Rightarrow> server \<Rightarrow> bool \<times> server" where
  "web_start context_ok s =
     (context_ok, setWebSocketSendToCallback (setWebSocketBroadcastCallback s))"

subsection \<open>The write queue of the Boost.Beast variant\<close>

text \<open>
  One session: the texts waiting, and the texts handed to \<open>async_write\<close> in order. A write is
  in progress exactly when the queue is not empty; its head is the text being written.
\<close>

record ws_queue =
  write_queue :: "string list"
  written :: "string list"

definition do_write :: "ws_queue \<Rightarrow> ws_queue" where
  "do_write q =
     (case write_queue q of [] \<Rightarrow> q | m # _ \<Rightarrow> q\<lparr>written := written q @ [m]\<rparr>)"

definition send_message :: "string \<Rightarrow> ws_queue \<Rightarrow> ws_queue" where
  "send_message m q =
     (let write_in_progress = (write_queue q \<noteq> []);
          q1 = q\<lparr>write_queue := write_queue q @ [m]\<rparr>
      in if \<not> write_in_progress then do_write q1 else q1)"

definition on_write :: "bool \<Rightarrow> ws_queue \<Rightarrow> ws_queue" where
  "on_write failed q =
     (let q1 = q\<lparr>write_queue := tl (write_queue q)\<rparr>
      in if failed then q1 else do_write q1)"

subsection \<open>Broadcasts\<close>

lemma websocket_broadcast_eq:
  "websocket_broadcast m w = w\<lparr>ws_out := ws_out w @ map (\<lambda>(_, wsi). Ws_write wsi m) (ws_sessions w)\<rparr>"
proof -
  have "foldl (\<lambda>w (_, wsi). ws_write wsi m w) w xs =
      w\<lparr>ws_out := ws_out w @ map (\<lambda>(_, wsi). Ws_write wsi m) xs\<rparr>" for xs :: "(string \<times> nat) list"
    by (induction xs arbitrary: w) (auto simp: ws_write_def)
  then show ?thesis by (simp add: websocket_broadcast_def)
qed

text \<open>The command and the name of a \<open>/login\<close> with one word behind it.\<close>

lemma ws_login_words:
  assumes "word n"
  shows "ws_command (''/login '' @ n) = ''/login''" and "ws_login_name (''/login '' @ n) = Inr n"
proof -
  have "find_char (CHR '' '') (''/login '' @ n) 0 = Some 6"
    using find_char_append [of "[]" 0 "CHR '' ''" "''/login''" n] by simp
  then show "ws_command (''/login '' @ n) = ''/login''" by (simp add: ws_command_def substr_def)
  have "CHR '' '' \<notin> set n" using assms by (auto simp: word_def)
  then show "ws_login_name (''/login '' @ n) = Inr n" by (simp add: ws_login_name_def substr_checked_def)
qed

subsection \<open>Properties\<close>


definition sample_web :: web where
  "sample_web = \<lparr>usernames = [(1, ''eve'')], ws_sessions = [(''eve'', 1)],
     chat = snd (web_start True sample_server), ws_out = []\<rparr>"


text \<open>A bare \<open>/login\<close> over WebSocket throws: the name is cut from a fixed position behind the
  end of the message, and nothing catches the exception.\<close>

theorem web_login_throws: "callback_websocket wsi (Receive ''/login'') w = Inl Out_of_range"
proof -
  have "ws_command ''/login'' = ''/login''" by (simp add: ws_command_def)
  then show ?thesis
    by (simp add: callback_websocket_def ws_receive_def ws_login_def ws_login_name_def substr_checked_def)
qed

text \<open>A session that logs in twice outlives its connection: after \<open>/login a\<close>, \<open>/login b\<close> and
  the end of the connection, the name \<open>a\<close> still leads to the closed session.\<close>

theorem web_stale_session:
  assumes "word a" and "word b" and "a \<noteq> b"
    and "getClientByName a (chat w) = None" and "getClientByName b (chat w) = None"
  shows "\<exists>w1 w2 w3. callback_websocket wsi (Receive (''/login '' @ a)) w = Inr w1
     \<and> callback_websocket wsi (Receive (''/login '' @ b)) w1 = Inr w2
     \<and> callback_websocket wsi Closed w2 = Inr w3
     \<and> map_of (ws_sessions w3) a = Some wsi \<and> map_of (ws_sessions w3) b = None"
proof -
  have same: "getClientByName n (broadcast m s) = getClientByName n s" for n m s
    by (simp add: getClientByName_def getClientByNameUnlocked_def broadcast_eq split: option.split)
  have fields: "ws_sessions (server_broadcast m v) = ws_sessions v"
    "usernames (server_broadcast m v) = usernames v" "chat (server_broadcast m v) = broadcast m (chat v)"
    for m v by (simp_all add: server_broadcast_def websocket_broadcast_eq Let_def)
  have ne: "b \<noteq> []" using assms(2) by blast
  define w1 where "w1 = server_broadcast (''[SYS] '' @ a @ '' joined the chat via WebSocket'')
     (ws_write wsi (''[SYS] Welcome, '' @ a @ ''! You are logged in.'')
       (w\<lparr>usernames := AList.update wsi a (usernames w), ws_sessions := AList.update a wsi (ws_sessions w)\<rparr>))"
  define w2 where "w2 = server_broadcast (''[SYS] '' @ b @ '' joined the chat via WebSocket'')
     (ws_write wsi (''[SYS] Welcome, '' @ b @ ''! You are logged in.'')
       (w1\<lparr>usernames := AList.update wsi b (usernames w1), ws_sessions := AList.update b wsi (ws_sessions w1)\<rparr>))"
  have 1: "callback_websocket wsi (Receive (''/login '' @ a)) w = Inr w1"
    using ws_login_words [OF assms(1)] assms(4)
    by (simp add: callback_websocket_def ws_receive_def ws_login_def Let_def w1_def)
  have "chat w1 = broadcast (''[SYS] '' @ a @ '' joined the chat via WebSocket'') (chat w)"
    by (simp add: w1_def fields ws_write_def)
  then have 2: "callback_websocket wsi (Receive (''/login '' @ b)) w1 = Inr w2"
    using ws_login_words [OF assms(2)] assms(5)
    by (simp add: callback_websocket_def ws_receive_def ws_login_def Let_def w2_def same)
  have u: "username_of wsi w2 = b" "ws_sessions w2 = AList.update b wsi (AList.update a wsi (ws_sessions w))"
    by (simp_all add: w2_def w1_def username_of_def fields ws_write_def)
  have "\<exists>w3. callback_websocket wsi Closed w2 = Inr w3 \<and> ws_sessions w3 = AList.delete b (ws_sessions w2)"
    using ne by (simp add: callback_websocket_def ws_closed_def u(1) Let_def fields)
  then show ?thesis using 1 2 u(2) assms(3) by fastforce
qed

theorem web_stale_session_witness:
  "\<exists>w1 w2 w3. callback_websocket 7 (Receive (''/login '' @ ''bob'')) sample_web = Inr w1
     \<and> callback_websocket 7 (Receive (''/login '' @ ''rob'')) w1 = Inr w2
     \<and> callback_websocket 7 Closed w2 = Inr w3 \<and> map_of (ws_sessions w3) ''bob'' = Some 7
     \<and> map_of (ws_sessions w3) ''rob'' = None"
  by (rule web_stale_session)
     (simp_all add: word_def is_space_def sample_web_def web_start_def setWebSocketSendToCallback_def
        setWebSocketBroadcastCallback_def getClientByName_def getClientByNameUnlocked_def)

text \<open>What can happen to a session's queue: a message is sent, a write completes.\<close>

datatype queue_event = Enqueue string | Completed

fun queue_run :: "queue_event list \<Rightarrow> ws_queue \<Rightarrow> ws_queue" where
  "queue_run [] q = q"
| "queue_run (Enqueue m # es) q = queue_run es (send_message m q)"
| "queue_run (Completed # es) q = queue_run es (on_write False q)"

definition enqueued :: "queue_event list \<Rightarrow> string list" where
  "enqueued es = concat (map (\<lambda>e. case e of Enqueue m \<Rightarrow> [m] | Completed \<Rightarrow> []) es)"

text \<open>The texts a queue has handed to the stream, and those that wait behind the one in progress.\<close>

definition sent :: "ws_queue \<Rightarrow> string list" where
  "sent q = written q @ tl (write_queue q)"

lemma sent_send_message: "sent (send_message m q) = sent q @ [m]"
  by (cases "write_queue q") (auto simp: sent_def send_message_def do_write_def Let_def)

lemma sent_on_write: "sent (on_write False q) = sent q"
  by (cases "write_queue q"; cases "tl (write_queue q)") (auto simp: sent_def on_write_def do_write_def Let_def)

lemma queue_run_order: "sent (queue_run es q) = sent q @ enqueued es"
proof (induction es arbitrary: q)
  case (Cons e es)
  then show ?case
    by (cases e) (simp_all add: enqueued_def sent_send_message sent_on_write)
qed (simp add: enqueued_def)

text \<open>The write queue of a session keeps the order and loses nothing: after any sequence of
  messages and completed writes, the texts handed to the stream followed by those still
  waiting behind the one in progress are the messages in the order they were sent.\<close>

theorem write_queue_fifo:
  "sent (queue_run es \<lparr>write_queue = [], written = []\<rparr>) = enqueued es"
  by (simp add: queue_run_order) (simp add: sent_def)

end
