(* ===== verification/Web_Boost.thy ===== *)
theory Web_Boost
  imports Web
begin

section \<open>The Boost.Beast variant of the WebSocket server (src/web_server_impl.cpp)\<close>

text \<open>
  The sessions of this variant are objects kept alive by their pending operations:
  \<open>sessions\<close> holds those that still exist, \<open>names\<close> is \<open>g_ws_sessions\<close>, whose weak pointers
  may lead to objects that are gone. Each session has the write queue of the theory Web.
  The operations Boost completes (a message read, a read error, a completed write, the end
  of an object's life) are the steps of the environment; HTTP requests are what the parser
  delivers, \<open>None\<close> when the stream ends or the parser fails.
\<close>

record session =
  username :: string
  queue :: ws_queue
  closing :: bool

record boost =
  sessions :: "(nat \<times> session) list"
  names :: "(string \<times> nat) list"
  chat_server :: server

definition empty_queue :: ws_queue where
  "empty_queue = \<lparr>write_queue = [], written = []\<rparr>"

definition new_session :: session where
  "new_session = \<lparr>username = [], queue = empty_queue, closing = False\<rparr>"

subsection \<open>Sending\<close>

definition modify_session :: "nat \<Rightarrow> (session \<Rightarrow> session) \<Rightarrow> boost \<Rightarrow> boost" where
  "modify_session sid f w =
     w\<lparr>sessions := map (\<lambda>(k, x). (k, if k = sid then f x else x)) (sessions w)\<rparr>"

definition session_send :: "nat \<Rightarrow> string \<Rightarrow> boost \<Rightarrow> boost" where
  "session_send sid m = modify_session sid (\<lambda>x. x\<lparr>queue := send_message m (queue x)\<rparr>)"

definition session_name :: "nat \<Rightarrow> boost \<Rightarrow> string" where
  "session_name sid w = (case map_of (sessions w) sid of Some x \<Rightarrow> username x | None \<Rightarrow> [])"

definition alive :: "nat \<Rightarrow> boost \<Rightarrow> bool" where
  "alive sid w = (map_of (sessions w) sid \<noteq> None)"

text \<open>
  The loop of \<open>websocket_broadcast\<close> over \<open>g_ws_sessions\<close>: a weak pointer that can be locked
  is sent the message and kept, any other entry is erased.
\<close>

fun broadcast_loop :: "string \<Rightarrow> (string \<times> nat) list \<Rightarrow> boost \<Rightarrow> (string \<times> nat) list \<times> boost" where
  "broadcast_loop m [] w = ([], w)"
| "broadcast_loop m ((n, sid) # it) w =
     (if alive sid w then
        (case broadcast_loop m it (session_send sid m w) of (kept, w1) \<Rightarrow> ((n, sid) # kept, w1))
      else broadcast_loop m it w)"

definition boost_broadcast :: "string \<Rightarrow> boost \<Rightarrow> boost" where
  "boost_broadcast m w = (case broadcast_loop m (names w) w of (kept, w1) \<Rightarrow> w1\<lparr>names := kept\<rparr>)"

definition boost_send_to :: "string \<Rightarrow> string \<Rightarrow> boost \<Rightarrow> boost" where
  "boost_send_to client_name m w =
     (case map_of (names w) client_name of
        Some sid \<Rightarrow> if alive sid w then session_send sid m w else w
      | None \<Rightarrow> w)"

text \<open>\<open>ChatServer::broadcast\<close> with this variant's callback.\<close>

definition chat_broadcast :: "string \<Rightarrow> boost \<Rightarrow> boost" where
  "chat_broadcast m w =
     (let w1 = w\<lparr>chat_server := broadcast m (chat_server w)\<rparr>
      in if websocket_broadcast_callback (chat_server w) then boost_broadcast m w1 else w1)"

subsection \<open>The messages of a session\<close>

definition boost_login :: "nat \<Rightarrow> string \<Rightarrow> boost \<Rightarrow> abort + boost" where
  "boost_login sid message w =
     (case ws_login_name message of
        Inl a \<Rightarrow> Inl a
      | Inr name \<Rightarrow>
          if getClientByName name (chat_server w) \<noteq> None then
            Inr (session_send sid ''[SYS] Error: Name already taken'' w)
          else
            let w1 = modify_session sid (\<lambda>x. x\<lparr>username := name\<rparr>) w;
                w2 = w1\<lparr>names := AList.update name sid (names w1)\<rparr>;
                w3 = w2\<lparr>chat_server := addWebSocketClient name sid (chat_server w2)\<rparr>;
                w4 = session_send sid (''[SYS] Welcome, '' @ name @ ''! You are logged in.'') w3
            in Inr (chat_broadcast (''[SYS] '' @ name @ '' joined the chat via WebSocket'') w4))"

text \<open>What \<open>/quit\<close> and a closed connection have in common.\<close>

definition sign_off :: "nat \<Rightarrow> boost \<Rightarrow> boost" where
  "sign_off sid w =
     (let name = session_name sid w
      in if name \<noteq> [] then
           (let w1 = w\<lparr>chat_server := removeWebSocketClient name (chat_server w)\<rparr>;
                w2 = w1\<lparr>names := AList.delete name (names w1)\<rparr>
            in chat_broadcast (''[SYS] '' @ name @ '' left the chat'') w2)
         else w)"

definition boost_quit :: "nat \<Rightarrow> boost \<Rightarrow> boost" where
  "boost_quit sid w = modify_session sid (\<lambda>x. x\<lparr>username := [], closing := True\<rparr>) (sign_off sid w)"

definition process_message :: "nat \<Rightarrow> string \<Rightarrow> boost \<Rightarrow> abort + boost" where
  "process_message sid message w =
     (if take 1 message = ''/'' then
        (let cmd = ws_command message
         in if cmd = ''/login'' then boost_login sid message w
            else if cmd = ''/quit'' then Inr (boost_quit sid w)
            else if cmd = ''/users'' then Inr (session_send sid (user_list_text (chat_server w)) w)
            else Inr (chat_broadcast message w))
      else if session_name sid w \<noteq> [] then
        Inr (chat_broadcast (''['' @ session_name sid w @ '']: '' @ message) w)
      else Inr (session_send sid ''[SYS] Please login first using /login <name>'' w))"

subsection \<open>Completed operations\<close>

datatype read_result = Read_message string | Read_closed | Read_error

definition on_read :: "nat \<Rightarrow> read_result \<Rightarrow> boost \<Rightarrow> abort + boost" where
  "on_read sid r w =
     (case r of
        Read_closed \<Rightarrow> Inr (sign_off sid w)
      | Read_error \<Rightarrow> Inr w
      | Read_message message \<Rightarrow> process_message sid message w)"

definition session_written :: "nat \<Rightarrow> bool \<Rightarrow> boost \<Rightarrow> boost" where
  "session_written sid failed = modify_session sid (\<lambda>x. x\<lparr>queue := on_write failed (queue x)\<rparr>)"

definition session_gone :: "nat \<Rightarrow> boost \<Rightarrow> boost" where
  "session_gone sid w = w\<lparr>sessions := AList.delete sid (sessions w)\<rparr>"

definition session_run :: "nat \<Rightarrow> boost \<Rightarrow> boost" where
  "session_run sid w = w\<lparr>sessions := AList.update sid new_session (sessions w)\<rparr>"

datatype boost_event =
    Accepted nat
  | Read nat read_result
  | Written nat bool
  | Gone nat

text \<open>
  One completion. The handlers of a session run only while the session exists, since each
  holds a reference to it; a new session has an identity of its own.
\<close>

definition boost_step :: "boost_event \<Rightarrow> boost \<Rightarrow> abort + boost" where
  "boost_step e w =
     (case e of
        Accepted sid \<Rightarrow> Inr (if alive sid w then w else session_run sid w)
      | Read sid r \<Rightarrow> if alive sid w then on_read sid r w else Inr w
      | Written sid failed \<Rightarrow> Inr (session_written sid failed w)
      | Gone sid \<Rightarrow> Inr (session_gone sid w))"

fun boost_run :: "boost_event list \<Rightarrow> boost \<Rightarrow> abort + boost" where
  "boost_run [] w = Inr w"
| "boost_run (e # es) w = (case boost_step e w of Inl a \<Rightarrow> Inl a | Inr w1 \<Rightarrow> boost_run es w1)"

subsection \<open>Connections\<close>

text \<open>
  \<open>load_html_file\<close>, and the listener: it reads one request from the connection itself, with
  a buffer of its own, and hands the socket on; the sessions read from what is left.
\<close>

definition load_html_file :: "string \<Rightarrow> (string \<Rightarrow> string option) \<Rightarrow> string" where
  "load_html_file path files =
     (case files path of
        None \<Rightarrow> ''<html><body><h1>File not found</h1></body></html>''
      | Some html \<Rightarrow> html)"

datatype handed = Websocket_session "string option list" | Http_session "string option list"

fun listener_on_accept :: "string option list \<Rightarrow> handed" where
  "listener_on_accept [] = Http_session []"
| "listener_on_accept (req # rest) =
     (if req = Some ''/ws'' then Websocket_session rest else Http_session rest)"

datatype http_event = Response string | Shutdown

fun http_session :: "string \<Rightarrow> bool \<Rightarrow> string option list \<Rightarrow> http_event list" where
  "http_session html write_failed [] = [Shutdown]"
| "http_session html write_failed (None # rest) = []"
| "http_session html write_failed (Some target # rest) =
     Response html # (if write_failed then [] else [Shutdown])"

text \<open>
  \<open>WebServer::start\<close>: the listener only prints when the port cannot be bound, so the result
  is whether an exception was thrown.
\<close>

definition boost_start :: "bool \<Rightarrow> server \<Rightarrow> bool \<times> server \<times> string" where
  "boost_start thrown s =
     (\<not> thrown, setWebSocketSendToCallback (setWebSocketBroadcastCallback s),
      load_html_file ''web/index.html'' (disk s))"

subsection \<open>What a broadcast does\<close>

text \<open>How many names of the table lead to a session, and the texts sent through a queue.\<close>

definition name_count :: "(string \<times> nat) list \<Rightarrow> nat \<Rightarrow> nat" where
  "name_count ns sid = length (filter (\<lambda>(_, k). k = sid) ns)"

definition repeated :: "nat \<Rightarrow> string \<Rightarrow> session \<Rightarrow> session" where
  "repeated n m x = x\<lparr>queue := (send_message m ^^ n) (queue x)\<rparr>"

lemma name_count_simps [simp]:
  "name_count [] sid = 0"
  "name_count ((n, k) # ns) sid = (if k = sid then Suc (name_count ns sid) else name_count ns sid)"
  by (simp_all add: name_count_def)

lemma repeated_simps [simp]:
  "repeated 0 m x = x" "username (repeated n m x) = username x" "closing (repeated n m x) = closing x"
  by (simp_all add: repeated_def)

lemma sent_repeated: "sent (queue (repeated n m x)) = sent (queue x) @ replicate n m"
proof -
  have "sent ((send_message m ^^ n) q) = sent q @ replicate n m" for q
    by (induction n) (simp_all add: sent_send_message replicate_append_same)
  then show ?thesis by (simp add: repeated_def)
qed

lemma map_of_modify_session [simp]:
  "map_of (sessions (modify_session sid f w)) k =
     (if k = sid then map_option f (map_of (sessions w) k) else map_of (sessions w) k)"
  by (simp add: modify_session_def)

lemma modify_session_frame [simp]:
  "names (modify_session sid f w) = names w"
  "chat_server (modify_session sid f w) = chat_server w"
  by (simp_all add: modify_session_def)

lemma session_send_frame [simp]:
  "names (session_send sid m w) = names w"
  "chat_server (session_send sid m w) = chat_server w"
  "alive k (session_send sid m w) = alive k w"
  by (simp_all add: session_send_def alive_def)

lemma broadcast_loop_eq:
  "broadcast_loop m ns w =
     (filter (\<lambda>(_, sid). alive sid w) ns,
      w\<lparr>sessions := map (\<lambda>(k, x). (k, repeated (name_count ns k) m x)) (sessions w)\<rparr>)"
proof (induction ns arbitrary: w)
  case Nil
  have "map (\<lambda>(k, x). (k, repeated 0 m x)) xs = xs" for xs :: "(nat \<times> session) list"
    by (induction xs) auto
  then show ?case by simp
next
  case (Cons e ns)
  obtain n sid where e: "e = (n, sid)" by fastforce
  show ?case
  proof (cases "alive sid w")
    case True
    have "repeated c m (x\<lparr>queue := send_message m (queue x)\<rparr>) = repeated (Suc c) m x" for c x
      by (simp add: repeated_def funpow_swap1)
    then have "map (\<lambda>(k, x). (k, repeated (name_count ns k) m x)) (sessions (session_send sid m w)) =
        map (\<lambda>(k, x). (k, repeated (name_count (e # ns) k) m x)) (sessions w)"
      by (auto simp: session_send_def modify_session_def e)
    moreover have "session_send sid m w\<lparr>sessions := xs\<rparr> = w\<lparr>sessions := xs\<rparr>" for xs
      by (simp add: session_send_def modify_session_def)
    ultimately show ?thesis using True Cons.IH by (simp add: e)
  next
    case False
    then have "map (\<lambda>(k, x). (k, repeated (name_count ns k) m x)) (sessions w) =
        map (\<lambda>(k, x). (k, repeated (name_count (e # ns) k) m x)) (sessions w)"
      by (auto simp: e alive_def map_of_eq_None_iff rev_image_eqI)
    then show ?thesis using False Cons.IH by (simp add: e)
  qed
qed

lemma boost_broadcast_eq:
  "boost_broadcast m w =
     w\<lparr>names := filter (\<lambda>(_, sid). alive sid w) (names w),
       sessions := map (\<lambda>(k, x). (k, repeated (name_count (names w) k) m x)) (sessions w)\<rparr>"
  by (simp add: boost_broadcast_def broadcast_loop_eq)

lemma alive_map [simp]: "alive k (w\<lparr>names := ns\<rparr>) = alive k w"
  "alive k (w\<lparr>chat_server := s\<rparr>) = alive k w"
  "session_name k (w\<lparr>names := ns\<rparr>) = session_name k w"
  "session_name k (w\<lparr>chat_server := s\<rparr>) = session_name k w"
  by (simp_all add: alive_def session_name_def)

lemma chat_broadcast_names:
  "names (chat_broadcast m w) =
     (if websocket_broadcast_callback (chat_server w) then filter (\<lambda>(_, sid). alive sid w) (names w) else names w)"
  by (simp add: chat_broadcast_def boost_broadcast_eq)

lemma map_of_repeat:
  "map_of (map (\<lambda>(k, x). (k, repeated (c k) m x)) xs) k = map_option (repeated (c k) m) (map_of xs k)"
  by (induction xs) auto

lemma chat_broadcast_frame [simp]:
  "chat_server (chat_broadcast m w) = broadcast m (chat_server w)"
  "alive k (chat_broadcast m w) = alive k w"
  "session_name k (chat_broadcast m w) = session_name k w"
  by (auto simp: chat_broadcast_def boost_broadcast_eq alive_def session_name_def map_of_repeat Let_def
      split: option.split)

subsection \<open>The table of names\<close>

text \<open>
  The table of names is part of the chat server's table of WebSocket clients. The
  handlers keep this; entries the broadcast erases stay in the other table.
\<close>

definition names_inv :: "boost \<Rightarrow> bool" where
  "names_inv w \<longleftrightarrow> distinct (map fst (names w))
     \<and> (\<forall>n sid. map_of (names w) n = Some sid \<longrightarrow> map_of (websocket_clients (chat_server w)) n = Some sid)"

lemma map_of_filter_Some:
  "distinct (map fst xs) \<Longrightarrow> map_of (filter P xs) n = Some v \<Longrightarrow> map_of xs n = Some v"
  by (metis (no_types, lifting) distinct_map_filter filter_is_subset map_of_eq_Some_iff subsetD)

lemma names_inv_send [simp]: "names_inv (session_send sid m w) = names_inv w"
  "names_inv (modify_session sid f w) = names_inv w"
  by (simp_all add: names_inv_def)

lemma names_inv_broadcast: "names_inv w \<Longrightarrow> names_inv (chat_broadcast m w)"
  by (auto simp: names_inv_def chat_broadcast_names broadcast_eq distinct_map_filter
      dest: map_of_filter_Some)

lemma names_inv_delete:
  "names_inv w \<Longrightarrow> names_inv (w\<lparr>chat_server := removeWebSocketClient n (chat_server w), names := AList.delete n (names w)\<rparr>)"
  by (simp add: names_inv_def removeWebSocketClient_def)

lemma names_inv_update:
  "names_inv w \<Longrightarrow> names_inv (w\<lparr>names := AList.update n sid (names w), chat_server := addWebSocketClient n sid (chat_server w)\<rparr>)"
  by (simp add: names_inv_def addWebSocketClient_def)

lemma names_inv_sign_off: "names_inv w \<Longrightarrow> names_inv (sign_off sid w)"
  using names_inv_broadcast [OF names_inv_delete] by (simp add: sign_off_def Let_def)

lemma names_inv_message:
  assumes "names_inv w" and "process_message sid message w = Inr w1"
  shows "names_inv w1"
proof -
  have login: "names_inv w2" if "boost_login sid message w = Inr w2" for w2
    using that assms(1) names_inv_update [of "modify_session sid f w" for f]
    by (auto simp: boost_login_def Let_def intro!: names_inv_broadcast split: sum.splits if_splits)
  show ?thesis using assms login
    by (auto simp: process_message_def boost_quit_def Let_def names_inv_broadcast names_inv_sign_off
        split: if_splits)
qed

lemma names_inv_step:
  assumes "names_inv w" and "boost_step e w = Inr w1"
  shows "names_inv w1"
proof (cases e)
  case (Read sid r)
  then show ?thesis
    using assms names_inv_message [OF assms(1)] names_inv_sign_off [OF assms(1)]
    by (auto simp: boost_step_def on_read_def split: if_splits read_result.splits)
qed (use assms in \<open>auto simp: boost_step_def session_run_def session_written_def session_gone_def
       names_inv_def split: if_splits\<close>)

lemma names_inv_run: "names_inv w \<Longrightarrow> boost_run es w = Inr w1 \<Longrightarrow> names_inv w1"
  by (induction es arbitrary: w) (auto dest: names_inv_step split: sum.splits)

lemma first_send_kept:
  "map_of (sessions w) k = Some x \<Longrightarrow>
     map_of (sessions (chat_broadcast m w)) k =
       Some (repeated (if websocket_broadcast_callback (chat_server w) then name_count (names w) k else 0) m x)"
  by (simp add: chat_broadcast_def boost_broadcast_eq map_of_repeat)

subsection \<open>Properties\<close>


definition sample_boost :: boost where
  "sample_boost = \<lparr>sessions = [(1, new_session\<lparr>username := ''eve''\<rparr>), (2, new_session\<lparr>username := ''dan''\<rparr>)],
     names = [(''eve'', 1), (''old'', 9), (''dan'', 2)],
     chat_server = snd (web_start True sample_server)\<rparr>"

lemma sample_boost_simps [simp]:
  "websocket_broadcast_callback (chat_server sample_boost)"
  "map_of (sessions sample_boost) 1 = Some (new_session\<lparr>username := ''eve''\<rparr>)"
  "map_of (sessions sample_boost) 2 = Some (new_session\<lparr>username := ''dan''\<rparr>)"
  "name_count (names sample_boost) 2 = 1"
  by (simp_all add: sample_boost_def web_start_def setWebSocketSendToCallback_def
      setWebSocketBroadcastCallback_def)


text \<open>Whatever completes in whatever order, a name in the table of sessions is registered with
  the chat server as a WebSocket client, for the same session.\<close>

theorem boost_names_registered:
  assumes "boost_run es \<lparr>sessions = [], names = [], chat_server = s\<rparr> = Inr w"
    and "map_of (names w) n = Some sid"
  shows "hasWebSocketClient n (chat_server w)
     \<and> map_of (websocket_clients (chat_server w)) n = Some sid"
proof -
  have "names_inv w" by (rule names_inv_run [OF _ assms(1)]) (simp add: names_inv_def)
  then show ?thesis using assms(2) by (simp add: names_inv_def hasWebSocketClient_def)
qed

text \<open>A login with a free name, on the tables.\<close>

lemma login_read:
  assumes "word n" and "getClientByName n (chat_server w) = None" and "alive sid w"
  shows "\<exists>w1. boost_step (Read sid (Read_message (''/login '' @ n))) w = Inr w1
     \<and> map_of (websocket_clients (chat_server w1)) = (map_of (websocket_clients (chat_server w)))(n \<mapsto> sid)
     \<and> session_name sid w1 = n \<and> (\<forall>k. k \<noteq> sid \<longrightarrow> session_name k w1 = session_name k w)
     \<and> (\<forall>k. alive k w1 = alive k w) \<and> getClientByName n (chat_server w1) = None
     \<and> (distinct (map fst (names w)) \<longrightarrow> distinct (map fst (names w1)))"
proof -
  have same: "getClientByName n (broadcast m s) = getClientByName n s"
    "getClientByName n (addWebSocketClient k j s) = getClientByName n s" for m s k j
    by (simp_all add: getClientByName_def getClientByNameUnlocked_def broadcast_eq addWebSocketClient_def
        split: option.split)
  let ?w = "session_send sid (''[SYS] Welcome, '' @ n @ ''! You are logged in.'')
     ((modify_session sid (\<lambda>x. x\<lparr>username := n\<rparr>) w)\<lparr>names := AList.update n sid (names w),
        chat_server := addWebSocketClient n sid (chat_server w)\<rparr>)"
  have "boost_step (Read sid (Read_message (''/login '' @ n))) w
      = Inr (chat_broadcast (''[SYS] '' @ n @ '' joined the chat via WebSocket'') ?w)"
    (is "_ = Inr ?v")
    using assms ws_login_words [OF assms(1)]
    by (simp add: boost_step_def on_read_def process_message_def boost_login_def Let_def)
  moreover have "session_name sid ?w = n" and "\<forall>k. k \<noteq> sid \<longrightarrow> session_name k ?w = session_name k w"
    and "\<forall>k. alive k ?w = alive k w"
    using assms(3) by (auto simp: session_name_def alive_def session_send_def)
  moreover have "distinct (map fst (names w)) \<longrightarrow> distinct (map fst (names ?v))"
    by (simp add: chat_broadcast_names distinct_map_filter)
  moreover have "map_of (websocket_clients (chat_server ?v)) = (map_of (websocket_clients (chat_server w)))(n \<mapsto> sid)"
    by (simp add: broadcast_eq addWebSocketClient_def)
  moreover have "getClientByName n (chat_server ?v) = None"
    using assms(2) by (simp add: same)
  ultimately show ?thesis by (intro exI [of _ ?v]) (simp only: chat_broadcast_frame simp_thms)
qed

text \<open>Names are not exclusive among WebSocket sessions: a second session may log in under the
  name of the first, and when the first one's connection is closed, the name of the second
  is unregistered although that session is alive and still uses it.\<close>

theorem boost_name_takeover:
  assumes "word n" and "getClientByName n (chat_server w) = None" and "alive a w" and "alive b w"
    and "a \<noteq> b" and "distinct (map fst (names w))"
  shows "\<exists>w1. boost_run [Read a (Read_message (''/login '' @ n)), Read b (Read_message (''/login '' @ n)),
         Read a Read_closed] w = Inr w1
     \<and> alive b w1 \<and> session_name b w1 = n
     \<and> map_of (names w1) n = None \<and> \<not> hasWebSocketClient n (chat_server w1)"
proof -
  obtain w1 where 1: "boost_step (Read a (Read_message (''/login '' @ n))) w = Inr w1"
    "session_name a w1 = n" "\<And>k. alive k w1 = alive k w" "getClientByName n (chat_server w1) = None"
    "distinct (map fst (names w1))"
    using login_read [OF assms(1-3)] assms(6) by blast
  have "alive b w1" using 1(3) assms(4) by simp
  obtain w2 where 2: "boost_step (Read b (Read_message (''/login '' @ n))) w1 = Inr w2"
    "session_name b w2 = n" "session_name a w2 = n" "\<And>k. alive k w2 = alive k w1"
    "distinct (map fst (names w2))"
    using login_read [OF assms(1) 1(4) \<open>alive b w1\<close>] 1(2,5) assms(5) by metis
  have "n \<noteq> []" using assms(1) by blast
  then have 3: "boost_step (Read a Read_closed) w2
      = Inr (chat_broadcast (''[SYS] '' @ n @ '' left the chat'')
          (w2\<lparr>chat_server := removeWebSocketClient n (chat_server w2), names := AList.delete n (names w2)\<rparr>))"
      (is "_ = Inr ?w3")
    using 2(3,4) 1(3) assms(3) by (simp add: boost_step_def on_read_def sign_off_def)
  have "map_of (names ?w3) n = None"
    using map_of_filter_Some [of "AList.delete n (names w2)" _ n] 2(5)
    by (fastforce simp: chat_broadcast_names)
  moreover have "\<not> hasWebSocketClient n (chat_server ?w3)"
    by (simp add: hasWebSocketClient_def removeWebSocketClient_def broadcast_eq)
  moreover have "alive b ?w3" "session_name b ?w3 = n"
    using 2(2,4) \<open>alive b w1\<close> by simp_all
  ultimately show ?thesis using 1(1) 2(1) 3 by simp
qed

theorem boost_name_takeover_witness:
  "\<exists>w1. boost_run [Read 1 (Read_message (''/login '' @ ''zoe'')), Read 2 (Read_message (''/login '' @ ''zoe'')),
         Read 1 Read_closed] sample_boost = Inr w1
     \<and> alive 2 w1 \<and> session_name 2 w1 = ''zoe''
     \<and> map_of (names w1) ''zoe'' = None \<and> \<not> hasWebSocketClient ''zoe'' (chat_server w1)"
  by (rule boost_name_takeover)
     (simp_all add: word_def is_space_def sample_boost_def web_start_def setWebSocketSendToCallback_def
        setWebSocketBroadcastCallback_def getClientByName_def getClientByNameUnlocked_def alive_def)

text \<open>A connection that breaks without the closing handshake is never signed off: the chat
  server's table keeps the pointer to the session after the object is gone.\<close>

theorem boost_dangling:
  assumes "word n" and "getClientByName n (chat_server w) = None" and "alive a w"
    and "distinct (map fst (sessions w))"
  shows "\<exists>w1. boost_run [Read a (Read_message (''/login '' @ n)), Read a Read_error, Gone a] w = Inr w1
     \<and> \<not> alive a w1 \<and> map_of (websocket_clients (chat_server w1)) n = Some a"
proof -
  obtain w1 where 1: "boost_step (Read a (Read_message (''/login '' @ n))) w = Inr w1" "alive a w1"
    "map_of (websocket_clients (chat_server w1)) n = Some a"
    using login_read [OF assms(1-3)] assms(3) by fastforce
  then show ?thesis
    by (simp add: boost_step_def on_read_def session_gone_def) (simp add: alive_def)
qed

theorem boost_dangling_witness:
  "\<exists>w1. boost_run [Read 1 (Read_message (''/login '' @ ''zoe'')), Read 1 Read_error, Gone 1] sample_boost = Inr w1
     \<and> \<not> alive 1 w1 \<and> map_of (websocket_clients (chat_server w1)) ''zoe'' = Some 1"
  by (rule boost_dangling)
     (simp_all add: word_def is_space_def sample_boost_def web_start_def setWebSocketSendToCallback_def
        setWebSocketBroadcastCallback_def getClientByName_def getClientByNameUnlocked_def alive_def)

text \<open>
  The listener takes the first request from the connection before it hands the socket on, so
  a browser that sends one request and waits is never answered, and a handshake never
  completes.
\<close>

lemma one_request_is_lost:
  "listener_on_accept [Some target] = (if target = ''/ws'' then Websocket_session [] else Http_session [])"
  "http_session html failed [] = [Shutdown]"
  by simp_all

end
