(* ===== verification/Fan_Out.thy ===== *)
theory Fan_Out
  imports Web_Boost Invariant
begin

section \<open>Broadcasts as one interface\<close>

text \<open>
  The three places that hand one text to many receivers: \<open>ChatServer::broadcast\<close> to the TCP
  clients, and the two variants of \<open>websocket_broadcast\<close> to the sessions. Their common
  contract is a locale: a broadcast appends the text to what each receiver has been sent,
  as often as the receiver is listed, and does not change the list of those that exist. What
  follows for sequences of broadcasts is proved once in the locale.
\<close>

locale fan_out =
  fixes send_all :: "string \<Rightarrow> 'w \<Rightarrow> 'w"
    and inbox :: "'w \<Rightarrow> 'k \<Rightarrow> string list"
    and copies :: "'w \<Rightarrow> 'k \<Rightarrow> nat"
  assumes inbox_send: "inbox (send_all m w) k = inbox w k @ replicate (copies w k) m"
    and copies_send: "copies (send_all m w) k = copies w k"
begin

lemma copies_many: "copies (fold send_all ms w) k = copies w k"
  by (induction ms arbitrary: w) (simp_all add: copies_send)

lemma inbox_many: "inbox (fold send_all ms w) k = inbox w k @ concat (map (replicate (copies w k)) ms)"
  by (induction ms arbitrary: w) (simp_all add: inbox_send copies_send)

text \<open>Who is listed once is sent the texts, all of them, once, and in their order.\<close>

lemma inbox_listed_once: "copies w k = 1 \<Longrightarrow> inbox (fold send_all ms w) k = inbox w k @ ms"
  by (simp add: inbox_many) (induction ms; simp)

text \<open>Who is not listed is sent nothing.\<close>

lemma inbox_unlisted: "copies w k = 0 \<Longrightarrow> inbox (fold send_all ms w) k = inbox w k"
  by (simp add: inbox_many)

text \<open>Two receivers that are listed once agree on the order.\<close>

lemma same_order:
  "copies w j = 1 \<Longrightarrow> copies w k = 1 \<Longrightarrow>
     drop (length (inbox w j)) (inbox (fold send_all ms w) j) =
     drop (length (inbox w k)) (inbox (fold send_all ms w) k)"
  by (simp add: inbox_listed_once)

end

subsection \<open>The TCP clients\<close>

definition sends_to :: "server \<Rightarrow> int \<Rightarrow> string list" where
  "sends_to s fd = concat (map (\<lambda>e. case e of Send k m \<Rightarrow> if k = fd then [m] else [] | _ \<Rightarrow> []) (trace s))"

lemma sends_to_clients:
  "concat (map (\<lambda>e. case e of Send k m \<Rightarrow> if k = fd then [m] else [] | _ \<Rightarrow> [])
     (map (\<lambda>(k, _). Send k m) cs)) = replicate (count_list (map fst cs) fd) m"
  by (induction cs) auto

interpretation tcp: fan_out broadcast sends_to "\<lambda>s fd. count_list (map fst (clients s)) fd"
  by unfold_locales
     (simp_all add: broadcast_eq sends_to_def broadcast_events_def sends_to_clients del: map_map)

subsection \<open>The sessions of the variant on libwebsockets\<close>

definition writes_to :: "web \<Rightarrow> nat \<Rightarrow> string list" where
  "writes_to w wsi = concat (map (\<lambda>e. case e of Ws_write k m \<Rightarrow> if k = wsi then [m] else [] | _ \<Rightarrow> []) (ws_out w))"

lemma writes_to_sessions:
  "concat (map (\<lambda>e. case e of Ws_write k m \<Rightarrow> if k = wsi then [m] else [] | _ \<Rightarrow> [])
     (map (\<lambda>(_, k). Ws_write k m) ss)) = replicate (name_count ss wsi) m"
  by (induction ss) auto

interpretation lws: fan_out websocket_broadcast writes_to "\<lambda>w wsi. name_count (ws_sessions w) wsi"
  by unfold_locales
     (simp_all add: websocket_broadcast_eq writes_to_def writes_to_sessions del: map_map)

subsection \<open>The sessions of the variant on Boost.Beast\<close>

definition sent_to :: "boost \<Rightarrow> nat \<Rightarrow> string list" where
  "sent_to w sid = (case map_of (sessions w) sid of None \<Rightarrow> [] | Some x \<Rightarrow> sent (queue x))"

definition live_names :: "boost \<Rightarrow> nat \<Rightarrow> nat" where
  "live_names w sid = (if alive sid w then name_count (names w) sid else 0)"

lemma name_count_filter:
  "name_count (filter (\<lambda>(_, k). P k) ns) sid = (if P sid then name_count ns sid else 0)"
  by (induction ns) auto

interpretation beast: fan_out boost_broadcast sent_to live_names
proof
  show "sent_to (boost_broadcast m w) sid = sent_to w sid @ replicate (live_names w sid) m" for m w sid
    by (simp add: boost_broadcast_eq sent_to_def live_names_def alive_def map_of_repeat sent_repeated
        split: option.split)
  show "live_names (boost_broadcast m w) sid = live_names w sid" for m w sid
    by (simp add: boost_broadcast_eq live_names_def alive_def map_of_repeat name_count_filter)
qed

subsection \<open>Properties\<close>

lemma listed_once: "distinct xs \<Longrightarrow> x \<in> set xs \<Longrightarrow> count_list xs x = 1"
  by (induction xs) (auto simp: count_notin)

text \<open>C24: Broadcasts are ordered: when texts are broadcast one after the other, every connected
  TCP client is sent exactly these texts in exactly this order, and so is every session, of
  either WebSocket variant, that has one name.\<close>

theorem broadcast_order:
  assumes "server_inv s" and "map_of (clients s) fd = Some c"
    and "name_count (ws_sessions w) wsi = 1" and "alive sid b" and "name_count (names b) sid = 1"
  shows "sends_to (fold broadcast ms s) fd = sends_to s fd @ ms
     \<and> writes_to (fold websocket_broadcast ms w) wsi = writes_to w wsi @ ms
     \<and> sent_to (fold boost_broadcast ms b) sid = sent_to b sid @ ms"
proof -
  have "distinct (map fst (clients s))" "fd \<in> set (map fst (clients s))"
    using assms(1) map_of_SomeD [OF assms(2)] by (auto simp: server_inv_def wf_clients_def intro: rev_image_eqI)
  then have "count_list (map fst (clients s)) fd = 1" by (rule listed_once)
  moreover have "live_names b sid = 1" using assms(4,5) by (simp add: live_names_def)
  ultimately show ?thesis
    using assms(3) tcp.inbox_listed_once lws.inbox_listed_once beast.inbox_listed_once by blast
qed

theorem broadcast_order_witness:
  "sends_to (fold broadcast [''a'', ''b''] sample_server) 6 = sends_to sample_server 6 @ [''a'', ''b'']
     \<and> sent_to (fold boost_broadcast [''a'', ''b''] sample_boost) 2 = sent_to sample_boost 2 @ [''a'', ''b'']"
  using broadcast_order [OF sample_server_inv, of 6 "sample_client 6 ''Guest_6''" sample_web 1 2 sample_boost
      "[''a'', ''b'']"]
  by (simp add: sample_web_def alive_def)

end
