(* ===== verification/Client.thy ===== *)
theory Client
  imports Protocol Framing
begin

section \<open>ChatClient (src/client.cpp)\<close>

text \<open>
  The client library: connecting, the commands it sends, the dispatch of what it receives,
  and the life of its receive thread. Writes to the socket, calls of the user's callbacks and
  output in their place are appended to \<open>events\<close>.
\<close>

declare map_of_eq_Some_iff [simp del] Some_eq_map_of_iff [simp del]

datatype client_event =
    Sent string
  | On_message chat_message
  | On_system string
  | On_users "string list"
  | On_error string
  | On_success string
  | Printed string
  | Socket_closed int

text \<open>
  \<open>receive_thread\<close> says whether the thread object is joinable, which it is from its creation
  to its join, also after its function has returned.
\<close>

record client =
  sock :: int
  connected :: bool
  receiving :: bool
  receive_thread :: bool
  cb_message :: bool
  cb_system :: bool
  cb_userlist :: bool
  cb_error :: bool
  cb_success :: bool
  events :: "client_event list"

definition new_chat_client :: client where
  "new_chat_client =
     \<lparr>sock = -1, connected = False, receiving = False, receive_thread = False,
      cb_message = False, cb_system = False, cb_userlist = False, cb_error = False,
      cb_success = False, events = []\<rparr>"

definition note_event :: "client_event \<Rightarrow> client \<Rightarrow> client" where
  "note_event e c = c\<lparr>events := events c @ [e]\<rparr>"

definition isConnected :: "client \<Rightarrow> bool" where
  "isConnected c = connected c"

text \<open>\<open>getUserCount\<close> has no support in the protocol and always gives 0.\<close>

definition getUserCount :: "client \<Rightarrow> nat" where
  "getUserCount c = 0"

definition client_setMessageCallback :: "client \<Rightarrow> client" where
  "client_setMessageCallback c = c\<lparr>cb_message := True\<rparr>"

definition setSystemMessageCallback :: "client \<Rightarrow> client" where
  "setSystemMessageCallback c = c\<lparr>cb_system := True\<rparr>"

definition setUserListCallback :: "client \<Rightarrow> client" where
  "setUserListCallback c = c\<lparr>cb_userlist := True\<rparr>"

definition setErrorCallback :: "client \<Rightarrow> client" where
  "setErrorCallback c = c\<lparr>cb_error := True\<rparr>"

definition setSuccessCallback :: "client \<Rightarrow> client" where
  "setSuccessCallback c = c\<lparr>cb_success := True\<rparr>"

text \<open>
  \<open>ChatClient::receive\<close> (and \<open>ChatServer::receiveFromSocket\<close>, the same code), which nothing
  calls: the bytes of one \<open>recv\<close> of at most 4095 bytes, read as a C string.
\<close>

definition receive_text :: "string option \<Rightarrow> string option" where
  "receive_text r =
     (case r of
        None \<Rightarrow> None
      | Some bytes \<Rightarrow> if bytes = [] then None else Some (c_string (take 4095 bytes)))"

subsection \<open>Connection and threads\<close>

text \<open>
  \<open>fd\<close> is what \<open>socket\<close> returned, the flags say whether the address parsed and the
  connection was made.
\<close>

definition connect :: "int \<Rightarrow> bool \<Rightarrow> bool \<Rightarrow> client \<Rightarrow> bool \<times> client" where
  "connect fd address_ok connect_ok c =
     (if fd < 0 then (False, c\<lparr>sock := fd\<rparr>)
      else if \<not> address_ok \<or> \<not> connect_ok then
        (False, note_event (Socket_closed fd) (c\<lparr>sock := -1\<rparr>))
      else (True, c\<lparr>sock := fd, connected := True\<rparr>))"

definition client_start :: "client \<Rightarrow> abort + client" where
  "client_start c =
     (if receiving c then Inr c
      else if receive_thread c then Inl Terminate
      else Inr (c\<lparr>receiving := True, receive_thread := True\<rparr>))"

definition client_stop :: "client \<Rightarrow> client" where
  "client_stop c =
     (if \<not> receiving c then c
      else c\<lparr>receiving := False, receive_thread := False\<rparr>)"

definition client_disconnect :: "client \<Rightarrow> client" where
  "client_disconnect c =
     (if \<not> connected c then c
      else
        let c1 = c\<lparr>receiving := False, connected := False\<rparr>;
            c2 = (if sock c1 \<ge> 0 then note_event (Socket_closed (sock c1)) (c1\<lparr>sock := -1\<rparr>) else c1)
        in client_stop c2)"

text \<open>The destructor: destroying a joinable \<open>std::thread\<close> terminates the program.\<close>

definition destroy_client :: "client \<Rightarrow> abort + client" where
  "destroy_client c =
     (let c1 = client_disconnect c in if receive_thread c1 then Inl Terminate else Inr c1)"

subsection \<open>Sending\<close>

text \<open>\<open>write_ok\<close>: the whole text was written.\<close>

definition client_send :: "bool \<Rightarrow> string \<Rightarrow> client \<Rightarrow> bool \<times> client" where
  "client_send write_ok data c =
     (if \<not> connected c then (False, c)
      else (write_ok, note_event (Sent (data @ [newline])) c))"

definition login :: "bool \<Rightarrow> string \<Rightarrow> string \<Rightarrow> client \<Rightarrow> bool \<times> client" where
  "login write_ok name password c =
     (if \<not> connected c then (False, c)
      else client_send write_ok
             (''/login '' @ name @ (if password \<noteq> [] then '' '' @ password else [])) c)"

definition sendMessage :: "bool \<Rightarrow> string \<Rightarrow> client \<Rightarrow> bool \<times> client" where
  "sendMessage write_ok message c =
     (if \<not> connected c then (False, c) else client_send write_ok message c)"

definition sendPrivateMessage :: "bool \<Rightarrow> string \<Rightarrow> string \<Rightarrow> client \<Rightarrow> bool \<times> client" where
  "sendPrivateMessage write_ok rcvr message c =
     (if \<not> connected c then (False, c)
      else client_send write_ok (''/whisper '' @ rcvr @ '' '' @ message) c)"

definition requestUserList :: "bool \<Rightarrow> client \<Rightarrow> bool \<times> client" where
  "requestUserList write_ok c =
     (if \<not> connected c then (False, c) else client_send write_ok ''/users'' c)"

subsection \<open>processMessage\<close>

definition system_out :: "string \<Rightarrow> client \<Rightarrow> client" where
  "system_out m c =
     (if cb_system c then note_event (On_system (''[SYS] '' @ m)) c
      else note_event (Printed (''[SYS] '' @ m @ [newline])) c)"

definition process_welcome :: "string \<Rightarrow> nat \<Rightarrow> client \<Rightarrow> client" where
  "process_welcome data start c =
     (case next_field field_sep data start of
        None \<Rightarrow> c
      | Some (welcome_msg, p1) \<Rightarrow>
          let c1 = system_out welcome_msg c
          in (case next_field field_sep data p1 of
                None \<Rightarrow> c1
              | Some (commands, p2) \<Rightarrow> system_out commands c1))"

definition process_ok :: "string \<Rightarrow> client \<Rightarrow> client" where
  "process_ok msg c =
     (if cb_success c then note_event (On_success msg) c
      else if cb_system c then note_event (On_system (''[OK] '' @ msg)) c
      else note_event (Printed (''[OK] '' @ msg @ [newline])) c)"

definition process_error :: "string \<Rightarrow> client \<Rightarrow> client" where
  "process_error err c =
     (if cb_error c then note_event (On_error err) c
      else note_event (Printed (''[ERROR] '' @ err @ [newline])) c)"

definition process_sys :: "string \<Rightarrow> nat \<Rightarrow> client \<Rightarrow> client" where
  "process_sys data start c =
     (case next_field field_sep data start of
        None \<Rightarrow> c
      | Some (msg, p1) \<Rightarrow> system_out msg c)"

text \<open>The loop over the announced number of names; it ends early when fields run out.\<close>

fun read_users :: "nat \<Rightarrow> string \<Rightarrow> nat \<Rightarrow> string list" where
  "read_users 0 data start = []"
| "read_users (Suc n) data start =
     (case next_field field_sep data start of
        None \<Rightarrow> []
      | Some (user, p) \<Rightarrow> user # read_users n data p)"

definition process_users :: "string \<Rightarrow> nat \<Rightarrow> client \<Rightarrow> abort + client" where
  "process_users data start c =
     (case next_field field_sep data start of
        None \<Rightarrow> Inr c
      | Some (count_str, p1) \<Rightarrow>
          (case stoull count_str of
             Inl a \<Rightarrow> Inl a
           | Inr n \<Rightarrow>
               Inr (if cb_userlist c then note_event (On_users (read_users n data p1)) c else c)))"

definition processMessage :: "int \<Rightarrow> string \<Rightarrow> client \<Rightarrow> abort + client" where
  "processMessage now data c =
     (if take 3 data = ''MSG'' then
        (case decode now data of
           None \<Rightarrow> Inr c
         | Some m \<Rightarrow> Inr (if cb_message c then note_event (On_message m) c else c))
      else if take 13 data = ''FILE_TRANSFER'' then
        Inr (note_event (Printed (''[FILE] Incoming file transfer request'' @ [newline])) c)
      else if take 12 data = ''FILE_REQUEST'' then
        Inr (note_event (Printed (''[FILE] Incoming file request'' @ [newline])) c)
      else if take 13 data = ''FILE_RESPONSE'' then
        Inr (note_event (Printed (''[FILE] File transfer response received'' @ [newline])) c)
      else if take 9 data = ''FILE_DATA'' then
        Inr (note_event (Printed (''[FILE] Receiving file data'' @ [newline])) c)
      else if take 12 data = ''READ_RECEIPT'' then Inr c
      else case next_field field_sep data 0 of
        None \<Rightarrow> Inr c
      | Some (ty, start) \<Rightarrow>
          if ty = ''WELCOME'' then Inr (process_welcome data start c)
          else if ty = ''OK'' then Inr (process_ok (substr_from data start) c)
          else if ty = ''ERROR'' then Inr (process_error (substr_from data start) c)
          else if ty = ''SYS'' then Inr (process_sys data start c)
          else if ty = ''USERS'' then process_users data start c
          else Inr c)"

subsection \<open>receiveThread\<close>

text \<open>
  What one round of the loop meets: \<open>select\<close> timed out, \<open>recv\<close> would block, the connection
  is gone, or bytes.
\<close>

datatype recv_event = Timed_out | Again | Lost | Data string

fun receiveThread :: "int \<Rightarrow> recv_event list \<Rightarrow> string \<times> client \<Rightarrow> abort + string \<times> client" where
  "receiveThread now [] st = Inr st"
| "receiveThread now (r # rs) st =
     (if \<not> (receiving (snd st) \<and> connected (snd st)) then Inr st
      else case r of
             Timed_out \<Rightarrow> receiveThread now rs st
           | Again \<Rightarrow> receiveThread now rs st
           | Lost \<Rightarrow>
               Inr (fst st, client_disconnect
                 (if cb_error (snd st) then note_event (On_error ''Connection lost'') (snd st)
                  else snd st))
           | Data chunk \<Rightarrow>
               (case receive_chunk (processMessage now) chunk st of
                  Inl a \<Rightarrow> Inl a
                | Inr st' \<Rightarrow> receiveThread now rs st'))"

subsection \<open>Fields of a received line\<close>

text \<open>The first field of a line of the server, and the dispatch by it.\<close>

lemma first_field:
  assumes "field_sep \<notin> set ty"
  shows "next_field field_sep (ty @ field_sep # rest) 0 = Some (ty, length ty + 1)"
  using next_field_append [of "[]" 0 field_sep ty rest] assms by simp

lemma field_behind:
  assumes "field_sep \<notin> set f" and "length pre = pos"
  shows "next_field field_sep (pre @ f @ field_sep # rest) pos = Some (f, pos + length f + 1)"
    and "field_sep \<notin> set rest' \<Longrightarrow> next_field field_sep (pre @ rest') pos = None"
  using assms by (simp_all add: next_field_append next_field_None_iff)

lemma process_ok_line: "processMessage now (''OK|'' @ t) c = Inr (process_ok t c)"
  using first_field [of "''OK''" t] by (simp add: processMessage_def substr_from_def)

lemma process_error_line: "processMessage now (''ERROR|'' @ t) c = Inr (process_error t c)"
  using first_field [of "''ERROR''" t] by (simp add: processMessage_def substr_from_def)

lemma process_sys_line: "processMessage now (''SYS|'' @ t) c = Inr (process_sys (''SYS|'' @ t) 4 c)"
  using first_field [of "''SYS''" t] by (simp add: processMessage_def eval_nat_numeral)

lemma process_users_line: "processMessage now (''USERS|'' @ t) c = process_users (''USERS|'' @ t) 6 c"
  using first_field [of "''USERS''" t] by (simp add: processMessage_def eval_nat_numeral)

lemma process_msg_line: "take 3 l = ''MSG'' \<Longrightarrow> decode now l = Some m \<Longrightarrow>
    processMessage now l c = Inr (if cb_message c then note_event (On_message m) c else c)"
  by (simp add: processMessage_def)

text \<open>Reading the names of a user list that is not closed by a separator.\<close>

lemma read_users_list:
  assumes "list_all (\<lambda>u. field_sep \<notin> set u) (u # us)" and "length pre = pos"
  shows "read_users n (pre @ u @ concat (map (\<lambda>u. field_sep # u) us)) pos =
    take n (butlast (u # us))"
  using assms
proof (induction n arbitrary: u us pre pos)
  case (Suc n)
  show ?case
  proof (cases us)
    case Nil
    then show ?thesis using Suc.prems by (simp add: field_behind(2))
  next
    case (Cons v vs)
    let ?tail = "concat (map (\<lambda>u. field_sep # u) vs)"
    have f: "next_field field_sep (pre @ u @ field_sep # (v @ ?tail)) pos = Some (u, pos + length u + 1)"
      using Suc.prems by (intro field_behind(1)) simp_all
    have "read_users n ((pre @ u @ [field_sep]) @ v @ ?tail) (pos + length u + 1) = take n (butlast (v # vs))"
      using Suc.prems Cons by (intro Suc.IH) simp_all
    then show ?thesis using f by (simp add: Cons)
  qed
qed simp

subsection \<open>Properties\<close>

text \<open>The five callbacks installed, as the console program does.\<close>

definition listening :: "client \<Rightarrow> bool" where
  "listening c \<longleftrightarrow> cb_message c \<and> cb_system c \<and> cb_userlist c \<and> cb_error c \<and> cb_success c"

text \<open>Answers reach the user as the server wrote them: the text of an \<open>OK\<close> or \<open>ERROR\<close> line,
  whatever characters it contains, is passed to the callback unchanged.\<close>

theorem answers_are_shown:
  assumes "listening c"
  shows "processMessage now (butlast (encodeSuccess t)) c = Inr (note_event (On_success t) c)
     \<and> processMessage now (butlast (encodeError t)) c = Inr (note_event (On_error t) c)"
  using assms process_ok_line [of now t c] process_error_line [of now t c]
  by (simp add: encodeSuccess_def encodeError_def butlast_append process_ok_def process_error_def
      listening_def)

definition sample_listener :: client where
  "sample_listener = new_chat_client
     \<lparr>sock := 3, connected := True, receiving := True, receive_thread := True, cb_message := True,
      cb_system := True, cb_userlist := True, cb_error := True, cb_success := True\<rparr>"

lemma sample_listening: "listening sample_listener"
  by (simp add: sample_listener_def listening_def)

theorem answers_are_shown_witness:
  "processMessage 0 (butlast (encodeError ''a|b'')) sample_listener = Inr (note_event (On_error ''a|b'') sample_listener)"
  using answers_are_shown [OF sample_listening, of 0 "''a|b''"] by blast

text \<open>System messages do not reach the user: the client looks for a second separator behind
  the text, which the server does not write, and drops the line.\<close>

theorem system_messages_dropped:
  assumes "field_sep \<notin> set t"
  shows "processMessage now (butlast (encodeSystemMessage t)) c = Inr c"
proof -
  have "next_field field_sep (''SYS|'' @ t) 4 = None"
    using field_behind(2) [of "[]" "''SYS|''" 4 t] assms by simp
  then show ?thesis
    using process_sys_line [of now t c]
    by (simp add: encodeSystemMessage_def butlast_append process_sys_def)
qed

theorem system_messages_dropped_witness:
  "processMessage 0 (butlast (encodeSystemMessage ''ann joined the chat'')) sample_listener = Inr sample_listener"
  by (rule system_messages_dropped) simp

text \<open>The user list loses its last name: from the list of the connected users that the server
  sends, the client passes on all names but the last, for the same reason.\<close>

theorem user_list_loses_last:
  assumes "listening c" and "us \<noteq> []" and "list_all (\<lambda>u. field_sep \<notin> set u) us" and "length us < 2 ^ 64"
  shows "processMessage now (butlast (encodeUserList us)) c = Inr (note_event (On_users (butlast us)) c)"
proof -
  obtain u vs where us: "us = u # vs" using assms(2) by (cases us) auto
  let ?n = "show_nat (length us)"
  let ?tail = "concat (map (\<lambda>u. field_sep # u) vs)"
  have line: "butlast (encodeUserList us) = ''USERS|'' @ ?n @ field_sep # u @ ?tail"
    by (simp add: encodeUserList_def us butlast_append)
  have "field_sep \<notin> set ?n" using show_nat_safe by blast
  then have f: "next_field field_sep (''USERS|'' @ ?n @ field_sep # u @ ?tail) 6 = Some (?n, 6 + length ?n + 1)"
    by (intro field_behind(1)) simp_all
  have r: "read_users (length us) ((''USERS|'' @ ?n @ [field_sep]) @ u @ ?tail) (6 + length ?n + 1) = butlast us"
    using read_users_list [of u vs "''USERS|'' @ ?n @ [field_sep]" "6 + length ?n + 1" "length us"] assms(3)
    by (simp add: us)
  show ?thesis
    using f r stoull_show_nat [OF assms(4)] assms(1)
    unfolding line process_users_line by (simp add: process_users_def listening_def)
qed

theorem user_list_loses_last_witness:
  "processMessage 0 (butlast (encodeUserList [''ann'', ''bob''])) sample_listener =
     Inr (note_event (On_users [''ann'']) sample_listener)"
  using user_list_loses_last [OF sample_listening, of "[''ann'', ''bob'']" 0] by simp

text \<open>A client that has received cannot be destroyed: after \<open>connect\<close> and \<open>start\<close>,
  \<open>disconnect\<close> clears the running flag before it calls \<open>stop\<close>, so that the receive thread is
  never joined and its destruction terminates the program.\<close>

theorem destruction_terminates:
  assumes "0 \<le> fd" and "\<not> receiving c" and "\<not> receive_thread c"
  shows "\<exists>c1 c2. connect fd True True c = (True, c1) \<and> client_start c1 = Inr c2
     \<and> destroy_client (client_stop (client_disconnect c2)) = Inl Terminate"
  using assms
  by (simp add: connect_def client_start_def client_stop_def client_disconnect_def destroy_client_def
      note_event_def Let_def)

theorem destruction_terminates_witness:
  "\<exists>c1 c2. connect 3 True True new_chat_client = (True, c1) \<and> client_start c1 = Inr c2
     \<and> destroy_client (client_stop (client_disconnect c2)) = Inl Terminate"
  by (rule destruction_terminates) (simp_all add: new_chat_client_def)

end
