(* ===== verification/Client_Main.thy ===== *)
theory Client_Main
  imports Client
begin

section \<open>The console program of the client (src/main_client.cpp)\<close>

text \<open>
  The callbacks that \<open>main\<close> installs, which keep the two globals \<open>g_logged_in\<close> and
  \<open>g_current_user\<close>, and the loop over the lines the user types. Output is the list \<open>cout\<close>.
\<close>

record console =
  g_logged_in :: bool
  g_quit :: bool
  g_current_user :: string
  g_client :: client
  cout :: "string list"

definition print_out :: "string \<Rightarrow> console \<Rightarrow> console" where
  "print_out t k = k\<lparr>cout := cout k @ [t]\<rparr>"

definition getPrompt :: "console \<Rightarrow> string" where
  "getPrompt k = (if g_logged_in k then ''['' @ g_current_user k @ ''] > '' else ''> '')"

subsection \<open>Callbacks\<close>

definition carriage_return :: char where
  "carriage_return = CHR 0x0D"

definition on_message :: "chat_message \<Rightarrow> console \<Rightarrow> console" where
  "on_message m k =
     print_out
       (if msg_type m = PRIVATE
        then carriage_return # ''[Private] '' @ sender m @ '' -> '' @ receiver m @ '': '' @ content m
               @ [newline] @ getPrompt k
        else carriage_return # ''['' @ sender m @ '']: '' @ content m @ [newline] @ getPrompt k) k"

definition on_system :: "string \<Rightarrow> console \<Rightarrow> console" where
  "on_system m k = print_out (carriage_return # ''[SYS] '' @ m @ [newline] @ getPrompt k) k"

fun join_names :: "string list \<Rightarrow> string" where
  "join_names [] = []"
| "join_names [u] = u"
| "join_names (u # us) = u @ '', '' @ join_names us"

definition on_users :: "string list \<Rightarrow> console \<Rightarrow> console" where
  "on_users us k =
     print_out (carriage_return # ''[Users] Online: '' @ join_names us @ [newline] @ getPrompt k) k"

definition on_error :: "string \<Rightarrow> console \<Rightarrow> console" where
  "on_error m k = print_out (carriage_return # ''[Error] '' @ m @ [newline] @ getPrompt k) k"

definition on_success :: "string \<Rightarrow> console \<Rightarrow> console" where
  "on_success m k =
     (let k1 = print_out (carriage_return # ''[OK] '' @ m @ [newline] @ getPrompt k) k
      in case find_sub ''Logged in as '' m of
           Some logged_in_pos \<Rightarrow>
             k1\<lparr>g_logged_in := True, g_current_user := substr_from m (logged_in_pos + 13)\<rparr>
         | None \<Rightarrow>
             (case find_sub ''registered successfully'' m of
                None \<Rightarrow> k1
              | Some _ \<Rightarrow>
                  let k2 = k1\<lparr>g_logged_in := True\<rparr>
                  in (case find_sub '': '' m of
                        None \<Rightarrow> k2
                      | Some colon_pos \<Rightarrow> k2\<lparr>g_current_user := substr_from m (colon_pos + 2)\<rparr>)))"

subsection \<open>The input loop\<close>

definition help_out :: string where
  "help_out =
     [newline] @ ''Commands:'' @ [newline]
     @ ''  /login <name> [password] (/l)    - Login with a name and optional password'' @ [newline]
     @ ''  /register <name> <password> (/r) - Register a new user'' @ [newline]
     @ ''  /users (/u)           - List online users'' @ [newline]
     @ ''  /whisper <name> <msg> (/w) - Send private message'' @ [newline]
     @ ''  /help (/h)            - Show this help'' @ [newline]
     @ ''  /quit (/q)            - Disconnect and exit'' @ [newline]
     @ ''  /nick <name> (/n)     - Change nickname'' @ [newline]
     @ ''  /info                 - Show server info'' @ [newline]
     @ ''  /createroom <name> [private] [password] (/cr) - Create a chat room'' @ [newline]
     @ ''  /joinroom <name> [password] (/jr) - Join a chat room'' @ [newline]
     @ ''  /leaveroom (/lr)      - Leave current chat room'' @ [newline]
     @ ''  /rooms (/ro)          - List all chat rooms'' @ [newline]
     @ ''  /roommembers (/rm)    - List members in current chat room'' @ [newline]
     @ ''  /transfer <file> <name> (/t) - Transfer file to user'' @ [newline]
     @ ''  /file <file>          - Send file to current chat room'' @ [newline]
     @ ''  /history [count]      - Get message history'' @ [newline]
     @ ''  /roomhistory [count]  - Get current room message history'' @ [newline]
     @ ''  /mute <name> [time]   - Mute user (admin only)'' @ [newline]
     @ ''  /unmute <name>        - Unmute user (admin only)'' @ [newline]
     @ ''  /kick <name> [reason] - Kick user (admin only)'' @ [newline]
     @ ''  <message>         - Send broadcast message'' @ [newline]"

definition account_cmd :: "string \<Rightarrow> bool" where
  "account_cmd input \<longleftrightarrow>
     take 7 input = ''/login '' \<or> take 3 input = ''/l ''
     \<or> take 10 input = ''/register '' \<or> take 3 input = ''/r ''"

definition is_allowed_cmd :: "string \<Rightarrow> bool" where
  "is_allowed_cmd input \<longleftrightarrow>
     input \<in> {''/quit'', ''/q'', ''/help'', ''/h'', ''/info'', ''/i''} \<or> account_cmd input"

text \<open>The name that the loop shows while the answer of the server is under way.\<close>

definition typed_name :: "string \<Rightarrow> string option" where
  "typed_name input =
     (case find_char (CHR '' '') input 0 of
        None \<Rightarrow> None
      | Some pos \<Rightarrow>
          let name = substr_from input (pos + 1)
          in Some (case find_char (CHR '' '') name 0 of
                     None \<Rightarrow> name
                   | Some pos2 \<Rightarrow> substr name 0 pos2))"

definition console_send :: "(client \<Rightarrow> bool \<times> client) \<Rightarrow> console \<Rightarrow> console" where
  "console_send f k = k\<lparr>g_client := snd (f (g_client k))\<rparr>"

text \<open>One round of the loop; the flag says that \<open>main\<close> returns.\<close>

definition handle_input_line :: "bool \<Rightarrow> string \<Rightarrow> console \<Rightarrow> bool \<times> console" where
  "handle_input_line ok input k =
     (if input = [] then (False, print_out (getPrompt k) k)
      else if \<not> g_logged_in k \<and> \<not> is_allowed_cmd input then
        (False, print_out (getPrompt k) (print_out
           (''[Error] Please login first. Use /login <name> or /register <name> <password>''
              @ [newline]) k))
      else if input = ''/quit'' \<or> input = ''/q'' \<or> input = ''/Q'' then
        (True, print_out (''Disconnected.'' @ [newline])
           ((print_out (newline # ''Disconnecting...'' @ [newline]) k)
              \<lparr>g_client := client_stop (client_disconnect (g_client k))\<rparr>))
      else
        let k1 =
          (if input = ''/help'' \<or> input = ''/h'' then print_out help_out k
           else if input = ''/users'' \<or> input = ''/u'' then console_send (requestUserList ok) k
           else if input = ''/info'' \<or> input = ''/i'' then console_send (sendMessage ok ''/info'') k
           else if account_cmd input \<and> \<not> g_logged_in k then
             (let k2 = console_send (sendMessage ok input) k
              in case typed_name input of
                   None \<Rightarrow> k2
                 | Some name \<Rightarrow> k2\<lparr>g_current_user := name\<rparr>)
           else console_send (sendMessage ok input) k)
        in (False, print_out (getPrompt k1) k1))"

text \<open>\<open>std::getline\<close> delivers one line after the other while the loop runs.\<close>

fun main_loop :: "bool \<Rightarrow> string list \<Rightarrow> console \<Rightarrow> bool \<times> console" where
  "main_loop ok [] k = (False, k)"
| "main_loop ok (input # inputs) k =
     (if \<not> connected (g_client k) \<or> g_quit k then (True, k)
      else case handle_input_line ok input k of
             (True, k1) \<Rightarrow> (True, k1)
           | (False, k1) \<Rightarrow> main_loop ok inputs k1)"

text \<open>
  \<open>std::getline(std::cin, input)\<close> on what is left of the standard input. A line without a
  line break is taken and leaves the stream at its end (\<open>None\<close>); from then on a call fails
  before it touches \<open>input\<close>, and its result is not tested.
\<close>

definition getline :: "string option \<Rightarrow> string \<Rightarrow> string option \<times> string" where
  "getline rest input =
     (case rest of
        None \<Rightarrow> (None, input)
      | Some s \<Rightarrow>
          if newline \<in> set s
          then (Some (tl (dropWhile (\<lambda>c. c \<noteq> newline) s)), takeWhile (\<lambda>c. c \<noteq> newline) s)
          else (None, s))"

text \<open>The loop over the standard input, for a number of rounds.\<close>

fun console_rounds :: "nat \<Rightarrow> bool \<Rightarrow> string option \<Rightarrow> string \<Rightarrow> console \<Rightarrow> bool \<times> console" where
  "console_rounds 0 ok rest input k = (False, k)"
| "console_rounds (Suc n) ok rest input k =
     (if \<not> connected (g_client k) \<or> g_quit k then (True, k)
      else case getline rest input of
             (rest1, input1) \<Rightarrow>
               (case handle_input_line ok input1 k of
                  (True, k1) \<Rightarrow> (True, k1)
                | (False, k1) \<Rightarrow> console_rounds n ok rest1 input1 k1))"

subsection \<open>Searching the answers\<close>

lemma find_sub_skip:
  "pat \<noteq> [] \<Longrightarrow> hd pat \<notin> set pre \<Longrightarrow> find_sub pat (pre @ s) = map_option (\<lambda>k. length pre + k) (find_sub pat s)"
proof (induction pre)
  case (Cons a pre)
  have "take (length pat) (a # pre @ s) \<noteq> pat"
    using Cons.prems by (cases pat) auto
  then show ?case using Cons by (cases "find_sub pat s") simp_all
qed (cases "find_sub pat s"; simp)

lemma find_sub_prefix: "pat \<noteq> [] \<Longrightarrow> find_sub pat (pat @ s) = Some 0"
  by (cases pat) simp_all

lemma find_sub_missing: "c \<in> set pat \<Longrightarrow> c \<notin> set s \<Longrightarrow> find_sub pat s = None"
proof (induction s)
  case (Cons a s)
  then have "take (length pat) (a # s) \<noteq> pat" by (metis in_set_takeD)
  with Cons show ?case by simp
qed auto

text \<open>Text that is no command of the console, typed by a user who is logged in.\<close>

definition console_text :: "string \<Rightarrow> bool" where
  "console_text s \<longleftrightarrow>
     s \<notin> {[], ''/quit'', ''/q'', ''/Q'', ''/help'', ''/h'', ''/users'', ''/u'', ''/info'', ''/i''}"

lemma handle_text_line:
  assumes "console_text s" and "g_logged_in k" and "connected (g_client k)"
  shows "\<exists>k1. handle_input_line ok s k = (False, k1) \<and> g_client k1 = note_event (Sent (s @ [newline])) (g_client k)
     \<and> g_logged_in k1 \<and> g_quit k1 = g_quit k"
  using assms
  by (simp add: handle_input_line_def console_text_def Let_def console_send_def print_out_def sendMessage_def
      client_send_def)

lemma repeated_rounds:
  assumes "console_text s" and "g_logged_in k" and "connected (g_client k)" and "\<not> g_quit k"
  shows "\<exists>k1. console_rounds n ok None s k = (False, k1)
     \<and> events (g_client k1) = events (g_client k) @ replicate n (Sent (s @ [newline]))"
  using assms(2-4)
proof (induction n arbitrary: k)
  case (Suc n)
  obtain k1 where k1: "handle_input_line ok s k = (False, k1)"
    "g_client k1 = note_event (Sent (s @ [newline])) (g_client k)" "g_logged_in k1" "g_quit k1 = g_quit k"
    using handle_text_line [OF assms(1) Suc.prems(1,2)] by blast
  with Suc.IH [of k1] Suc.prems
  show ?case by (auto simp: getline_def note_event_def)
qed simp

text \<open>A login that the user types is sent as typed, and the name is shown in the meantime.\<close>

lemma typed_login:
  assumes "word name" and "\<not> g_logged_in k"
  shows "g_client (snd (handle_input_line ok (''/login '' @ name @ '' '' @ password) k)) =
           snd (sendMessage ok (''/login '' @ name @ '' '' @ password) (g_client k))
     \<and> g_current_user (snd (handle_input_line ok (''/login '' @ name @ '' '' @ password) k)) = name
     \<and> \<not> g_logged_in (snd (handle_input_line ok (''/login '' @ name @ '' '' @ password) k))"
proof -
  let ?input = "''/login '' @ name @ '' '' @ password"
  have blank: "CHR '' '' \<notin> set name" using assms(1) by (auto simp: word_def)
  have "find_char (CHR '' '') ?input 0 = Some 6"
    using find_char_append [of "[]" 0 "CHR '' ''" "''/login''" "name @ '' '' @ password"] by simp
  moreover have "find_char (CHR '' '') (name @ '' '' @ password) 0 = Some (length name)"
    using find_char_append [of "[]" 0 "CHR '' ''" name password] blank by simp
  ultimately have "typed_name ?input = Some name"
    by (simp add: typed_name_def substr_from_def substr_def)
  moreover have "account_cmd ?input" by (simp add: account_cmd_def)
  moreover have "is_allowed_cmd ?input" by (simp add: is_allowed_cmd_def account_cmd_def)
  moreover have "?input \<notin> {[], ''/quit'', ''/q'', ''/Q'', ''/help'', ''/h'', ''/users'', ''/u'', ''/info'', ''/i''}"
    by simp
  ultimately show ?thesis using assms(2)
    unfolding handle_input_line_def Let_def by (simp add: console_send_def print_out_def)
qed

subsection \<open>Properties\<close>

text \<open>The console follows the server: the answers to a login and to a registration make it
  logged in under exactly the name that the server has given the client.\<close>

theorem console_follows_login:
  assumes "word name"
  shows "g_logged_in (on_success (''Logged in as '' @ name) k)
     \<and> g_current_user (on_success (''Logged in as '' @ name) k) = name
     \<and> g_logged_in (on_success (''User registered successfully: '' @ name) k)
     \<and> g_current_user (on_success (''User registered successfully: '' @ name) k) = name"
proof -
  have blank: "CHR '' '' \<notin> set name" using assms by (auto simp: word_def)
  have 1: "find_sub ''Logged in as '' (''Logged in as '' @ name) = Some 0"
    by (rule find_sub_prefix) simp
  have 2: "find_sub ''Logged in as '' (''User registered successfully: '' @ name) = None"
    using find_sub_skip [of "''Logged in as ''" "''User registered successfully: ''" name]
      find_sub_missing [of "CHR '' ''" "''Logged in as ''" name] blank by simp
  have 3: "find_sub ''registered successfully'' (''User registered successfully: '' @ name) = Some 5"
    by simp
  have 4: "find_sub '': '' (''User registered successfully: '' @ name) = Some 28"
    using find_sub_skip [of "'': ''" "''User registered successfully''" "'': '' @ name"]
      find_sub_prefix [of "'': ''" name] by simp
  show ?thesis
    unfolding on_success_def Let_def 1 2 3 4 by (simp add: substr_from_def)
qed

definition sample_console :: console where
  "sample_console =
     \<lparr>g_logged_in = False, g_quit = False, g_current_user = [], g_client = sample_listener, cout = []\<rparr>"

theorem console_follows_login_witness:
  "g_current_user (on_success (''User registered successfully: '' @ ''ann'') sample_console) = ''ann''"
  using console_follows_login [of "''ann''" sample_console] by (simp add: word_def is_space_def)

text \<open>Nothing is sent before the login: while the user is not logged in, a line that is none
  of the allowed commands leaves the connection untouched and the loop running.\<close>

theorem console_gate:
  assumes "\<not> g_logged_in k" and "\<not> is_allowed_cmd input"
  shows "fst (handle_input_line ok input k) = False
     \<and> g_client (snd (handle_input_line ok input k)) = g_client k
     \<and> \<not> g_logged_in (snd (handle_input_line ok input k))"
  using assms by (simp add: handle_input_line_def print_out_def)

theorem console_gate_witness:
  "g_client (snd (handle_input_line True ''/whisper bob hi'' sample_console)) = sample_listener"
  using console_gate [of sample_console "''/whisper bob hi''" True]
  by (simp add: sample_console_def is_allowed_cmd_def account_cmd_def)



end
