(* ===== verification/Programs.thy ===== *)
theory Programs
  imports Web Client_Main "HOL-Library.Word"
begin

section \<open>The programs (src/main_server.cpp, src/main_web.cpp, src/main_client.cpp)\<close>

text \<open>
  The \<open>main\<close> functions: the port of the command line, the texts the installed callbacks of the
  server print, the signal handlers, the status loop, the start of the console client up to
  its input loop (the theory Client_Main), and the thread of the WebSocket server with its
  \<open>stop\<close> (src/web_server.cpp). Printed texts are lists of strings; the texts of the server's
  callbacks are without the line break that ends them, and what \<open>main\<close> and the handler of the
  server print besides is left out.
\<close>

subsection \<open>The command line\<close>

text \<open>\<open>static_cast<uint16_t>(std::stoi(argv[1]))\<close>, or the default.\<close>

definition server_port :: "string option \<Rightarrow> abort + 16 word" where
  "server_port arg =
     (case arg of
        None \<Rightarrow> Inr 8888
      | Some a \<Rightarrow> (case stoi 10 a of Inl err \<Rightarrow> Inl err | Inr v \<Rightarrow> Inr (word_of_int v)))"

subsection \<open>The callbacks\<close>

definition message_text :: "chat_message \<Rightarrow> string" where
  "message_text m =
     ''['' @ show_int (timestamp m div 1000000000) @ ''] ''
     @ (if msg_type m = PRIVATE then ''[Private] '' @ sender m @ '' -> '' @ receiver m
        else ''[Broadcast] '' @ sender m)
     @ '': '' @ content m"

definition connect_text :: "client_info \<Rightarrow> string" where
  "connect_text c =
     ''Client connected: '' @ ip_address c @ '':'' @ show_nat (port c)
     @ '' (fd: '' @ show_int (socket_fd c) @ '')''"

definition disconnect_text :: "client_info \<Rightarrow> string" where
  "disconnect_text c = ''Client disconnected: '' @ ci_name c"

definition with_callbacks :: "server \<Rightarrow> server" where
  "with_callbacks s = setDisconnectCallback (setConnectCallback (setMessageCallback s))"

subsection \<open>The signal handler and the loop\<close>

definition SIGINT :: int where "SIGINT = 2"

definition SIGTERM :: int where "SIGTERM = 15"

definition signalHandler :: "env \<Rightarrow> nat \<Rightarrow> nat list \<Rightarrow> int \<Rightarrow> server option \<Rightarrow> (abort \<times> server) + server option" where
  "signalHandler e self left sig g_server =
     (if sig = SIGINT \<or> sig = SIGTERM then
        (case g_server of
           None \<Rightarrow> Inr None
         | Some s \<Rightarrow> (case stop e self left s of Inl a \<Rightarrow> Inl a | Inr t \<Rightarrow> Inr (Some t)))
      else Inr g_server)"

text \<open>
  The loop, on the server as it is at each test of the condition and after each pause: what
  is printed, and whether the loop has ended.
\<close>

definition online_text :: "nat \<Rightarrow> string" where
  "online_text client_count =
     carriage_return # ''Online clients: '' @ show_nat client_count @ ''          ''"

definition stopped_text :: string where
  "stopped_text = [newline] @ ''Server stopped.'' @ [newline]"

fun status_loop :: "(server \<times> server) list \<Rightarrow> string list \<times> bool" where
  "status_loop [] = ([], False)"
| "status_loop ((s, t) # rest) =
     (if \<not> isRunning s then ([stopped_text], True)
      else
        let client_count = getClientCount t;
            out = (if client_count > 0 then [online_text client_count] else [])
        in case status_loop rest of (later, ended) \<Rightarrow> (out @ later, ended))"

text \<open>\<open>main\<close> up to the loop: the exit code when it returns before, and the server.\<close>

definition server_main ::
  "env \<Rightarrow> net \<Rightarrow> (string \<Rightarrow> string option) \<Rightarrow> string option \<Rightarrow>
     (abort \<times> server) + int option \<times> 16 word \<times> server" where
  "server_main e n files arg =
     (case server_port arg of
        Inl err \<Rightarrow> Inl (err, new_server files)
      | Inr p \<Rightarrow>
          (case start e n (with_callbacks (new_server files)) of
             Inl a \<Rightarrow> Inl a
           | Inr (ok, s) \<Rightarrow> Inr (if \<not> ok then Some 1 else None, p, s)))"

text \<open>\<open>main\<close> of the web program: the result of \<open>ChatServer::start\<close> is not looked at.\<close>

definition web_main ::
  "env \<Rightarrow> net \<Rightarrow> (string \<Rightarrow> string option) \<Rightarrow> bool \<Rightarrow> (abort \<times> server) + int option \<times> server" where
  "web_main e n files context_ok =
     (case start e n (new_server files) of
        Inl a \<Rightarrow> Inl a
      | Inr (_, s) \<Rightarrow>
          (case web_start context_ok s of
             (ok, t) \<Rightarrow> Inr (if \<not> ok then Some 1 else None, t)))"

subsection \<open>The console client\<close>

text \<open>\<open>main\<close> installs all five callbacks; the error code is returned when there is no connection.\<close>

definition listening_client :: client where
  "listening_client =
     setSuccessCallback (setErrorCallback (setUserListCallback (setSystemMessageCallback
       (client_setMessageCallback new_chat_client))))"

definition client_main ::
  "string option \<Rightarrow> string option \<Rightarrow> int \<Rightarrow> bool \<Rightarrow> bool \<Rightarrow> abort + int option \<times> 16 word \<times> console" where
  "client_main host_arg port_arg fd address_ok connect_ok =
     (let host = (case host_arg of None \<Rightarrow> ''127.0.0.1'' | Some h \<Rightarrow> h)
      in case server_port port_arg of
           Inl err \<Rightarrow> Inl err
         | Inr p \<Rightarrow>
             let k = print_out (''Connecting to '' @ host @ '':'' @ show_nat (unat p) @ ''...'' @ [newline])
                   \<lparr>g_logged_in = False, g_quit = False, g_current_user = [], g_client = listening_client,
                    cout = []\<rparr>
             in (case connect fd address_ok connect_ok (g_client k) of
                   (False, c) \<Rightarrow> Inr (Some 1, p, k\<lparr>g_client := c\<rparr>)
                 | (True, c) \<Rightarrow>
                     (case client_start c of
                        Inl err \<Rightarrow> Inl err
                      | Inr c1 \<Rightarrow>
                          let k1 = print_out ([newline] @ ''Welcome to SmallChat! Please login first.'' @ [newline])
                                (print_out (''Connected!'' @ [newline]) (k\<lparr>g_client := c1\<rparr>));
                              k2 = print_out (''Use: /login <name> or /register <name> <password>'' @ [newline]) k1
                          in Inr (None, p, print_out (getPrompt k2) k2))))"

definition client_signal :: "int \<Rightarrow> console \<Rightarrow> console" where
  "client_signal sig k =
     (if sig = SIGINT \<or> sig = SIGTERM then
        (let k1 = (print_out ([newline] @ ''Disconnecting...'' @ [newline]) k)\<lparr>g_quit := True\<rparr>
         in k1\<lparr>g_client := client_disconnect (g_client k1)\<rparr>)
      else k)"

text \<open>A started console client listens, and a signal ends its loop at the next test.\<close>

lemma client_main_listens:
  assumes "client_main h a fd True True = Inr (None, p, k)"
  shows "listening (g_client k) \<and> receiving (g_client k) \<and> connected (g_client k) \<and> \<not> g_logged_in k"
  using assms
  by (auto simp: client_main_def connect_def client_start_def listening_client_def new_chat_client_def
      setSuccessCallback_def setErrorCallback_def setUserListCallback_def setSystemMessageCallback_def
      client_setMessageCallback_def listening_def print_out_def Let_def note_event_def
      split: sum.splits if_splits prod.splits bool.splits)

lemma signal_ends_rounds:
  assumes "sig = SIGINT \<or> sig = SIGTERM" and "0 < n"
  shows "console_rounds n ok rest input (client_signal sig k) = (True, client_signal sig k)"
  using assms by (cases n) (auto simp: client_signal_def)

subsection \<open>The thread of the WebSocket server\<close>

text \<open>
  \<open>run\<close> tests \<open>context_\<close> and serves, again and again; \<open>stop\<close> cancels the wait, joins the
  thread and only then clears \<open>context_\<close>.
\<close>

datatype run_phase = Testing | Serving | Returned

datatype stop_phase = Not_called | Joining | Stopped

record web_service =
  lws_context :: bool
  run_at :: run_phase
  stop_at :: stop_phase

inductive service_step :: "web_service \<Rightarrow> web_service \<Rightarrow> bool" where
  serve: "run_at w = Testing \<Longrightarrow> lws_context w \<Longrightarrow> service_step w (w\<lparr>run_at := Serving\<rparr>)"
| leave: "run_at w = Testing \<Longrightarrow> \<not> lws_context w \<Longrightarrow> service_step w (w\<lparr>run_at := Returned\<rparr>)"
| served: "run_at w = Serving \<Longrightarrow> service_step w (w\<lparr>run_at := Testing\<rparr>)"
| stop_call: "stop_at w = Not_called \<Longrightarrow> lws_context w \<Longrightarrow> service_step w (w\<lparr>stop_at := Joining\<rparr>)"
| stop_idle: "stop_at w = Not_called \<Longrightarrow> \<not> lws_context w \<Longrightarrow> service_step w (w\<lparr>stop_at := Stopped\<rparr>)"
| joined: "stop_at w = Joining \<Longrightarrow> run_at w = Returned \<Longrightarrow>
     service_step w (w\<lparr>stop_at := Stopped, lws_context := False\<rparr>)"

inductive_cases service_stepE: "service_step w v"

inductive service_run :: "web_service \<Rightarrow> web_service \<Rightarrow> bool" for w where
  service_none: "service_run w w"
| service_more: "service_run w v \<Longrightarrow> service_step v u \<Longrightarrow> service_run w u"

definition started_service :: web_service where
  "started_service = \<lparr>lws_context = True, run_at = Testing, stop_at = Not_called\<rparr>"

subsection \<open>Properties\<close>

text \<open>The port of the command line is taken modulo 65536: a decimal argument within the range
  of \<open>int\<close> gives the port it denotes when that is a port, and in general its residue, so two
  arguments that differ by a multiple of 65536 listen on the same port and none is refused.\<close>

theorem server_port_wraps:
  assumes "- (2 ^ 31) \<le> v" and "v < 2 ^ 31"
  shows "\<exists>p. server_port (Some (show_int v)) = Inr p \<and> uint p = v mod 65536
    \<and> (0 \<le> v \<and> v < 65536 \<longrightarrow> uint p = v)"
proof -
  have "server_port (Some (show_int v)) = Inr (word_of_int v)"
    using stoi_show_int [of v] assms by (simp add: server_port_def)
  moreover have "uint (word_of_int v :: 16 word) = v mod 65536"
    by (simp add: uint_word_of_int)
  ultimately show ?thesis by simp
qed

theorem server_port_wraps_witness:
  "\<exists>p. server_port (Some (show_int 74424)) = Inr p \<and> uint p = 8888"
  using server_port_wraps [of 74424] by simp

lemma save_frame [simp]:
  "client_threads (snd (saveUsers e f s)) = client_threads s"
  "exited (snd (saveUsers e f s)) = exited s"
  "running (snd (saveUsers e f s)) = running s"
  "client_threads (snd (saveMessageHistory e f s)) = client_threads s"
  "exited (snd (saveMessageHistory e f s)) = exited s"
  "running (snd (saveMessageHistory e f s)) = running s"
  by (simp_all add: saveUsers_def saveMessageHistory_def)

lemma status_loop_running:
  "list_all (\<lambda>(a, _). isRunning a) obs \<Longrightarrow> \<exists>out. status_loop (obs @ rest) =
     (out @ fst (status_loop rest), snd (status_loop rest))"
proof (induction obs)
  case Nil
  show ?case by (rule exI [of _ "[]"]) simp
next
  case (Cons o1 obs)
  then obtain out where "status_loop (obs @ rest) = (out @ fst (status_loop rest), snd (status_loop rest))"
    by auto
  then show ?case using Cons.prems by (cases o1) (simp add: Let_def)
qed

text \<open>A signal ends the server program: while the server runs and the client threads that are
  left return, the handler of SIGINT and SIGTERM stops the server, and the status loop, which
  has run while the server did, ends at its next test.\<close>

theorem signal_ends_loop:
  assumes "sig = SIGINT \<or> sig = SIGTERM" and "running s"
    and "snd ` set (client_threads s) \<subseteq> set left \<union> set (exited s)"
    and "list_all (\<lambda>(a, _). isRunning a) obs"
  shows "\<exists>t out. signalHandler e self left sig (Some s) = Inr (Some t) \<and> \<not> isRunning t \<and> clients t = []
     \<and> status_loop (obs @ (t, u) # rest) = (out @ [stopped_text], True)"
proof -
  have "find (\<lambda>(_, t). t \<notin> set left \<union> set (exited s)) (client_threads s) = None"
    using assms(3) by (auto simp: find_None_iff)
  then obtain t where t: "stop e self left s = Inr t" "\<not> running t" "clients t = []"
    using assms(2) by (simp add: stop_def Let_def close_all_eq)
  then have "fst (status_loop ((t, u) # rest)) = [stopped_text]" "snd (status_loop ((t, u) # rest))"
    by (simp_all add: isRunning_def)
  with status_loop_running [OF assms(4), of "(t, u) # rest"] t assms(1) show ?thesis
    by (auto simp: signalHandler_def isRunning_def)
qed

theorem signal_ends_loop_witness:
  "\<exists>t out. signalHandler sample_env 9 [0, 1] SIGTERM (Some sample_server) = Inr (Some t)
     \<and> status_loop [(sample_server, sample_server), (t, sample_server)] = (out @ [stopped_text], True)"
proof -
  have sig: "SIGTERM = SIGINT \<or> SIGTERM = SIGTERM" and left: "snd ` set (client_threads sample_server) \<subseteq> set [0, 1] \<union> set (exited sample_server)"
    and obs: "list_all (\<lambda>(a, _). isRunning a) [(sample_server, sample_server)]"
    by (simp_all add: sample_server_def isRunning_def)
  obtain t out where "signalHandler sample_env 9 [0, 1] SIGTERM (Some sample_server) = Inr (Some t)"
    and "status_loop ([(sample_server, sample_server)] @ (t, sample_server) # []) = (out @ [stopped_text], True)"
    using signal_ends_loop [OF sig sample_server_simps(1) left obs, of sample_env 9 sample_server "[]"] by blast
  then show ?thesis by auto
qed

text \<open>
  The web program serves WebSocket sessions also when the chat server could not be started.
\<close>

lemma web_main_without_chat:
  assumes "\<not> bind_ok n"
  shows "\<exists>t. web_main e n files True = Inr (None, t) \<and> \<not> isRunning t \<and> websocket_broadcast_callback t"
  using assms
  by (simp add: web_main_def start_def web_start_def setWebSocketBroadcastCallback_def
      setWebSocketSendToCallback_def new_server_def isRunning_def)

lemma server_main_exit:
  assumes "server_port arg = Inr p" and "\<not> bind_ok n"
  shows "\<exists>s. server_main e n files arg = Inr (Some 1, p, s) \<and> \<not> isRunning s"
  using assms
  by (simp add: server_main_def start_def with_callbacks_def setMessageCallback_def
      setConnectCallback_def setDisconnectCallback_def new_server_def isRunning_def)

text \<open>C36: The WebSocket server cannot be stopped: once its thread runs, no interleaving of the
  thread with a call of \<open>stop\<close> lets the call return, because the thread leaves its loop only
  when \<open>context_\<close> is cleared, which \<open>stop\<close> does after joining it.\<close>

theorem web_stop_hangs:
  assumes "service_run started_service w"
  shows "stop_at w \<noteq> Stopped \<and> run_at w \<noteq> Returned \<and> (\<exists>v. service_step w v)"
proof -
  have "lws_context w \<and> run_at w \<noteq> Returned \<and> stop_at w \<noteq> Stopped"
    using assms
  proof (induction rule: service_run.induct)
    case (service_more v u)
    then show ?case by (auto elim!: service_stepE)
  qed (simp add: started_service_def)
  moreover from this have "\<exists>v. service_step w v"
    by (cases "run_at w") (auto intro: service_step.intros)
  ultimately show ?thesis by blast
qed

theorem web_stop_hangs_witness:
  "\<exists>w. service_run started_service w \<and> stop_at w = Joining \<and> run_at w \<noteq> Returned"
proof -
  have "service_step started_service (started_service\<lparr>stop_at := Joining\<rparr>)"
    by (rule service_step.stop_call) (simp_all add: started_service_def)
  then have "service_run started_service (started_service\<lparr>stop_at := Joining\<rparr>)"
    by (rule service_run.service_more [OF service_run.service_none])
  with web_stop_hangs [OF this] show ?thesis by (intro exI [of _ "started_service\<lparr>stop_at := Joining\<rparr>"]) simp
qed

end
