(* ===== verification/Names.thy ===== *)
theory Names
  imports Lifecycle
begin

section \<open>Who may carry which name\<close>

text \<open>
  Two scenarios over whole lines. The names of the model are checked against
  \<open>name_to_socket_\<close> alone: neither the accounts nor the names of guests are reserved, and
  \<open>/nick\<close> asks for no password.
\<close>

lemma nick_line:
  assumes "word n" and "getClientByName n s = None" and "map_of (clients s) fd = Some c"
  shows "\<exists>t. handle_line e self fd (''/nick '' @ n) s = Inr t
     \<and> clients t = map (\<lambda>(k, x). (k, if k = fd then x\<lparr>ci_name := n\<rparr> else x)) (clients s)
     \<and> name_to_socket t = AList.update n fd (AList.delete (ci_name c) (name_to_socket s))
     \<and> users t = users s"
proof -
  have r: "read_word (''/nick '' @ n) = (''/nick'', '' '' @ n)"
    using read_word_append [of "''/nick''" "CHR '' ''" n] by (simp add: word_def is_space_def)
  have w: "read_word ('' '' @ n) = (n, [])" "n \<noteq> []" using assms(1) by (auto simp: string_ops)
  have "handle_line e self fd (''/nick '' @ n) s = Inr (handle_nick fd c ('' '' @ n) s)"
    unfolding handle_line_def using account_dispatch(3) [OF r] assms(3) by (simp add: getClientBySocket_def)
  then show ?thesis
    unfolding handle_nick_def w using w(2) assms(2,3) by (simp add: Let_def nick_block_eq handler_defs)
qed

lemma guest_name_word: "word (guest_name fd)"
proof -
  have "\<not> is_space c" if digit: "c \<in> set (show_nat k)" for c k
    using show_nat_digits [OF digit] digit_char_props(2) by fastforce
  then show ?thesis by (auto simp: word_def guest_name_def show_int_def is_space_def)
qed

text \<open>C17: An account's name can be used without its password: \<open>/nick\<close> gives any name that no
  connected client has registered to any client, logged in or not, also the name of an
  account; the account itself is untouched, and its owner can then not log in, whatever
  password is sent.\<close>

theorem nick_takes_account:
  assumes "word n" and "getClientByName n s = None" and "map_of (clients s) fd = Some c"
    and "map_of (users s) n = Some h"
  shows "\<exists>t. handle_line e self fd (''/nick '' @ n) s = Inr t
     \<and> getClientByName n t = Some (c\<lparr>ci_name := n\<rparr>) \<and> map_of (users t) n = Some h
     \<and> (\<forall>e' fd' password. line_text password \<longrightarrow>
          handle_login e' fd' ('' '' @ n @ '' '' @ password) t =
            Inr (sendToSocket fd' (encodeError ''Name already taken'') t))"
proof -
  obtain t where t: "handle_line e self fd (''/nick '' @ n) s = Inr t"
    "clients t = map (\<lambda>(k, x). (k, if k = fd then x\<lparr>ci_name := n\<rparr> else x)) (clients s)"
    "name_to_socket t = AList.update n fd (AList.delete (ci_name c) (name_to_socket s))" "users t = users s"
    using nick_line [OF assms(1-3)] by blast
  have "getClientByName n t = Some (c\<lparr>ci_name := n\<rparr>)"
    using assms(3) by (simp add: getClientByName_def getClientByNameUnlocked_def t)
  with name_in_use_refused [OF assms(1) _ this] t assms(4) show ?thesis by auto
qed

theorem nick_takes_account_witness:
  "\<exists>t. handle_line sample_env 1 6 (''/nick '' @ ''bob'') (sample_server\<lparr>users := [(''bob'', ''aa:bb'')]\<rparr>) = Inr t
     \<and> getClientByName ''bob'' t = Some ((sample_client 6 ''Guest_6'')\<lparr>ci_name := ''bob''\<rparr>)"
  using nick_takes_account [of "''bob''" "sample_server\<lparr>users := [(''bob'', ''aa:bb'')]\<rparr>" 6
      "sample_client 6 ''Guest_6''" "''aa:bb''" sample_env 1]
  by (auto simp: word_def is_space_def getClientByName_def getClientByNameUnlocked_def)

text \<open>Guest names clash: a client that takes the name \<open>Guest_b\<close> of the connection \<open>b\<close>, which
  the server allows because guests are not in its table of names, loses its registration as
  soon as \<open>b\<close> takes a name of its own; it still carries the name and nobody can reach it.\<close>

theorem guest_name_clash:
  assumes "map_of (clients s) a = Some ca" and "map_of (clients s) b = Some cb" and "a \<noteq> b"
    and "ci_name cb = guest_name b" and "getClientByName (guest_name b) s = None"
    and "word n" and "getClientByName n s = None" and "n \<noteq> guest_name b" and "ci_name ca \<noteq> n"
  shows "\<exists>t u. handle_line e self a (''/nick '' @ guest_name b) s = Inr t
     \<and> getClientByName (guest_name b) t = Some (ca\<lparr>ci_name := guest_name b\<rparr>)
     \<and> handle_line e' self' b (''/nick '' @ n) t = Inr u
     \<and> getClientBySocket a u = Some (ca\<lparr>ci_name := guest_name b\<rparr>)
     \<and> getClientByName (guest_name b) u = None"
proof -
  obtain t where t: "handle_line e self a (''/nick '' @ guest_name b) s = Inr t"
    "clients t = map (\<lambda>(k, x). (k, if k = a then x\<lparr>ci_name := guest_name b\<rparr> else x)) (clients s)"
    "name_to_socket t = AList.update (guest_name b) a (AList.delete (ci_name ca) (name_to_socket s))"
    using nick_line [OF guest_name_word assms(5,1)] by blast
  have b: "map_of (clients t) b = Some cb" using assms(2,3) by (simp add: t)
  have "getClientByName n t = None"
    using assms(3,7-9)
    by (auto simp: getClientByName_def getClientByNameUnlocked_def t split: option.splits)
  then obtain u where u: "handle_line e' self' b (''/nick '' @ n) t = Inr u"
    "clients u = map (\<lambda>(k, x). (k, if k = b then x\<lparr>ci_name := n\<rparr> else x)) (clients t)"
    "name_to_socket u = AList.update n b (AList.delete (ci_name cb) (name_to_socket t))"
    using nick_line [OF assms(6) _ b] by blast
  have "getClientByName (guest_name b) t = Some (ca\<lparr>ci_name := guest_name b\<rparr>)"
    using assms(1) by (simp add: getClientByName_def getClientByNameUnlocked_def t)
  moreover have "getClientBySocket a u = Some (ca\<lparr>ci_name := guest_name b\<rparr>)"
    using assms(1,3) unfolding getClientBySocket_def u(2) t(2) by (simp del: map_map)
  moreover have "getClientByName (guest_name b) u = None"
    using assms(4,8) by (simp add: getClientByName_def getClientByNameUnlocked_def u)
  ultimately show ?thesis using t(1) u(1) by blast
qed

theorem guest_name_clash_witness:
  "\<exists>t u. handle_line sample_env 0 5 (''/nick '' @ guest_name 6) sample_server = Inr t
     \<and> handle_line sample_env 1 6 (''/nick '' @ ''bob'') t = Inr u
     \<and> getClientByName (guest_name 6) u = None"
proof -
  have "guest_name 6 = ''Guest_6''" by code_simp
  then show ?thesis
    using guest_name_clash [of sample_server 5 "sample_client 5 ''ann''" 6 "sample_client 6 ''Guest_6''" "''bob''"
        sample_env 0 sample_env 1]
    by (auto simp: word_def is_space_def getClientByName_def getClientByNameUnlocked_def)
qed

end
