(* ===== verification/Locking.thy ===== *)
theory Locking
  imports Prelude
begin

text \<open>
  The mutexes of the server (\<open>server.h\<close> 221-246 and \<open>g_ws_mutex\<close> of \<open>web_server.cpp\<close>) and the
  order in which each operation locks and unlocks them, with the joins of client threads.
  Whether a system of threads can be stuck depends on nothing else. The lemmas show that the
  operations without a join lock upwards in one order, that such threads never block each
  other for good, and that a join with \<open>threads_mutex_\<close> held does.
\<close>

section \<open>Mutexes and threads\<close>

datatype lock =
    Rooms_mutex | History_mutex | Users_mutex | Threads_mutex | Websocket_mutex
  | Clients_mutex | Ws_mutex

text \<open>The lock order. Only \<open>Rooms_mutex < Clients_mutex\<close> and \<open>History_mutex < Clients_mutex\<close> matter.\<close>

primrec lock_rank :: "lock \<Rightarrow> nat" where
  "lock_rank Rooms_mutex = 0"
| "lock_rank History_mutex = 1"
| "lock_rank Users_mutex = 2"
| "lock_rank Threads_mutex = 3"
| "lock_rank Websocket_mutex = 4"
| "lock_rank Clients_mutex = 5"
| "lock_rank Ws_mutex = 6"

lemma lock_rank_inj: "lock_rank l = lock_rank m \<longleftrightarrow> l = m"
  by (cases l; cases m) simp_all

instantiation lock :: linorder
begin

definition less_eq_lock :: "lock \<Rightarrow> lock \<Rightarrow> bool" where
  "less_eq_lock l m \<longleftrightarrow> lock_rank l \<le> lock_rank m"

definition less_lock :: "lock \<Rightarrow> lock \<Rightarrow> bool" where
  "less_lock l m \<longleftrightarrow> lock_rank l < lock_rank m"

instance
  by intro_classes (auto simp: less_eq_lock_def less_lock_def lock_rank_inj)

end

datatype action = Acquire lock | Release lock | Join nat

text \<open>
  A thread is what it still has to do and the locks it holds, the innermost first. Taking a
  mutex waits until no other thread holds it (\<open>clients_mutex_\<close> is recursive, the others would
  block their own thread); joining waits until the other thread has nothing left to do.
\<close>

type_synonym thread = "action list \<times> lock list"

definition finished :: "thread \<Rightarrow> bool" where
  "finished th \<longleftrightarrow> fst th = []"

definition available :: "lock \<Rightarrow> nat \<Rightarrow> thread list \<Rightarrow> bool" where
  "available l i ts \<longleftrightarrow>
     list_all (\<lambda>j. l \<in> set (snd (ts ! j)) \<longrightarrow> j = i \<and> l = Clients_mutex) [0..<length ts]"

fun advance :: "nat \<Rightarrow> thread list \<Rightarrow> thread \<Rightarrow> thread option" where
  "advance i ts ([], hs) = None"
| "advance i ts (Acquire l # as, hs) = (if available l i ts then Some (as, l # hs) else None)"
| "advance i ts (Release l # as, hs) = Some (as, remove1 l hs)"
| "advance i ts (Join t # as, hs) =
     (if t < length ts \<and> t \<noteq> i \<and> finished (ts ! t) then Some (as, hs) else None)"

definition thread_step :: "nat \<Rightarrow> thread list \<Rightarrow> thread list option" where
  "thread_step i ts =
     (if i < length ts then map_option (\<lambda>th. ts[i := th]) (advance i ts (ts ! i)) else None)"

inductive runs :: "thread list \<Rightarrow> thread list \<Rightarrow> bool" for ts where
  runs_none: "runs ts ts"
| runs_more: "runs ts us \<Longrightarrow> thread_step i us = Some vs \<Longrightarrow> runs ts vs"

inductive_cases runs_endE: "runs ts us"

definition spawn :: "action list list \<Rightarrow> thread list" where
  "spawn programs = map (\<lambda>p. (p, [])) programs"

fun schedule :: "nat list \<Rightarrow> thread list \<Rightarrow> thread list option" where
  "schedule [] ts = Some ts"
| "schedule (i # is) ts = (case thread_step i ts of None \<Rightarrow> None | Some us \<Rightarrow> schedule is us)"

lemma schedule_runs: "runs ts us \<Longrightarrow> schedule is us = Some vs \<Longrightarrow> runs ts vs"
  by (induction "is" arbitrary: us) (auto split: option.splits intro: runs.runs_more)

section \<open>What the operations lock\<close>

text \<open>A \<open>lock_guard\<close> in a block of its own, and one with further locking inside.\<close>

definition guard :: "lock \<Rightarrow> action list" where
  "guard l = [Acquire l, Release l]"

definition guard_around :: "lock \<Rightarrow> action list \<Rightarrow> action list" where
  "guard_around l inner = Acquire l # inner @ [Release l]"

text \<open>\<open>broadcast\<close>, the WebSocket callback installed or not, and \<open>sendToClient\<close>.\<close>

definition broadcast_locks :: "bool \<Rightarrow> action list" where
  "broadcast_locks ws = guard Clients_mutex @ (if ws then guard Ws_mutex else [])"

definition sendToClient_locks :: "bool \<Rightarrow> bool \<Rightarrow> action list" where
  "sendToClient_locks found ws =
     guard Clients_mutex @ (if \<not> found \<and> ws then guard Ws_mutex else [])"

text \<open>How far a command gets: its arguments are missing, a check refuses it, or it is done.\<close>

datatype path = Usage | Taken | Refused | Done

definition login_locks :: "bool \<Rightarrow> bool \<Rightarrow> path \<Rightarrow> action list" where
  "login_locks ws new_account p =
     (case p of
        Usage \<Rightarrow> []
      | Taken \<Rightarrow> guard Clients_mutex
      | Refused \<Rightarrow> guard Clients_mutex @ guard Users_mutex
      | Done \<Rightarrow> guard Clients_mutex @ guard Users_mutex
                 @ (if new_account then guard Users_mutex else [])
                 @ guard Clients_mutex @ broadcast_locks ws)"

definition register_locks :: "bool \<Rightarrow> path \<Rightarrow> action list" where
  "register_locks ws p =
     (case p of
        Usage \<Rightarrow> []
      | Taken \<Rightarrow> guard Clients_mutex
      | Refused \<Rightarrow> guard Clients_mutex @ guard Users_mutex
      | Done \<Rightarrow> guard Clients_mutex @ guard Users_mutex @ guard Users_mutex
                 @ guard Users_mutex @ guard Clients_mutex @ broadcast_locks ws)"

definition nick_locks :: "bool \<Rightarrow> path \<Rightarrow> action list" where
  "nick_locks ws p =
     (case p of
        Usage \<Rightarrow> []
      | Done \<Rightarrow> guard Clients_mutex @ guard Clients_mutex @ broadcast_locks ws
      | _ \<Rightarrow> guard Clients_mutex)"

definition whisper_locks :: "path \<Rightarrow> action list" where
  "whisper_locks p =
     (case p of
        Usage \<Rightarrow> []
      | Done \<Rightarrow> guard Clients_mutex @ guard History_mutex
      | _ \<Rightarrow> guard Clients_mutex)"

definition createroom_locks :: "bool \<Rightarrow> path \<Rightarrow> action list" where
  "createroom_locks ws p =
     (case p of
        Usage \<Rightarrow> []
      | Done \<Rightarrow> guard Rooms_mutex @ guard Rooms_mutex @ guard Clients_mutex @ broadcast_locks ws
      | _ \<Rightarrow> guard Rooms_mutex)"

text \<open>\<open>Taken\<close> stands for "already in the room".\<close>

definition joinroom_locks :: "bool \<Rightarrow> path \<Rightarrow> action list" where
  "joinroom_locks ws p =
     (case p of
        Usage \<Rightarrow> []
      | Refused \<Rightarrow> guard Rooms_mutex
      | Taken \<Rightarrow> guard Rooms_mutex @ guard Rooms_mutex
      | Done \<Rightarrow> guard Rooms_mutex @ guard Rooms_mutex @ guard Rooms_mutex
                 @ guard Clients_mutex @ broadcast_locks ws)"

definition leaveroom_locks :: "bool \<Rightarrow> path \<Rightarrow> action list" where
  "leaveroom_locks ws p =
     (case p of
        Done \<Rightarrow> guard Rooms_mutex @ guard Clients_mutex @ broadcast_locks ws
      | _ \<Rightarrow> [])"

text \<open>\<open>/mute\<close> and \<open>/unmute\<close>: \<open>Usage\<close> covers the missing permission, \<open>Refused\<close> the missing target.\<close>

definition mute_locks :: "bool \<Rightarrow> path \<Rightarrow> action list" where
  "mute_locks ws p =
     (case p of
        Usage \<Rightarrow> []
      | Done \<Rightarrow> guard Clients_mutex @ broadcast_locks ws
      | _ \<Rightarrow> guard Clients_mutex)"

text \<open>
  \<open>/file\<close>, and a line that starts with a slash but is no command, inside a room: the members'
  sockets are looked up with both mutexes held when the room is there.
\<close>

definition member_sockets_locks :: "bool \<Rightarrow> action list" where
  "member_sockets_locks room_found =
     guard_around Rooms_mutex (if room_found then guard Clients_mutex else [])"

definition room_line_locks :: "bool \<Rightarrow> action list" where
  "room_line_locks room_found = guard History_mutex @ member_sockets_locks room_found"

text \<open>
  A \<open>MSG\<close> line and plain text: the target's lookup, or the lookup of every member of the
  room, or the broadcast, and the history. \<open>Nowhere\<close>: the client is not logged in or muted, or
  there is no such room. The rooms are read without \<open>rooms_mutex_\<close>.
\<close>

datatype delivery = Nowhere | To_client | To_members nat | To_all

definition message_locks :: "bool \<Rightarrow> delivery \<Rightarrow> action list" where
  "message_locks ws d =
     guard Clients_mutex
     @ (case d of
          Nowhere \<Rightarrow> []
        | To_client \<Rightarrow> guard Clients_mutex @ guard History_mutex
        | To_members n \<Rightarrow> concat (replicate n (guard Clients_mutex)) @ guard History_mutex
        | To_all \<Rightarrow> broadcast_locks ws @ guard History_mutex)"

definition text_locks :: "bool \<Rightarrow> delivery \<Rightarrow> action list" where
  "text_locks ws d =
     guard Clients_mutex
     @ (case d of
          To_members n \<Rightarrow> concat (replicate n (guard Clients_mutex)) @ guard History_mutex
        | To_all \<Rightarrow> guard History_mutex @ broadcast_locks ws
        | _ \<Rightarrow> [])"

text \<open>A read receipt looks up the sender of each message found with \<open>history_mutex_\<close> held.\<close>

definition receipt_locks :: "nat \<Rightarrow> action list" where
  "receipt_locks found = guard_around History_mutex (concat (replicate found (guard Clients_mutex)))"

text \<open>Files, and a new connection (the record, then its thread).\<close>

definition load_locks :: "nat \<Rightarrow> nat \<Rightarrow> action list" where
  "load_locks accounts messages =
     concat (replicate accounts (guard Users_mutex)) @ concat (replicate messages (guard History_mutex))"

definition save_locks :: "action list" where
  "save_locks = guard Users_mutex @ guard History_mutex"

definition accept_locks :: "action list" where
  "accept_locks = guard Clients_mutex @ guard Threads_mutex"

text \<open>The operations that remove a client: the thread stored for it, if any, is joined.\<close>

definition remove_locks :: "nat option \<Rightarrow> action list" where
  "remove_locks thread =
     guard Clients_mutex
     @ guard_around Threads_mutex (case thread of None \<Rightarrow> [] | Some t \<Rightarrow> [Join t])"

definition kick_locks :: "bool \<Rightarrow> nat option \<Rightarrow> action list" where
  "kick_locks ws thread = guard Clients_mutex @ broadcast_locks ws @ remove_locks thread"

definition quit_locks :: "bool \<Rightarrow> bool \<Rightarrow> nat option \<Rightarrow> action list" where
  "quit_locks ws in_room thread =
     (if in_room then guard Rooms_mutex @ broadcast_locks ws else []) @ remove_locks thread"

definition stop_locks :: "nat \<Rightarrow> nat list \<Rightarrow> action list" where
  "stop_locks accept_thread client_threads =
     save_locks @ [Join accept_thread] @ guard Clients_mutex
     @ guard_around Threads_mutex (map Join client_threads)"

text \<open>The WebSocket callback: \<open>/login\<close> (the name taken or not), and \<open>/quit\<close> or a closed session.\<close>

definition ws_login_locks :: "bool \<Rightarrow> action list" where
  "ws_login_locks free =
     guard Clients_mutex @ (if free then guard Ws_mutex @ broadcast_locks True else [])"

definition ws_leave_locks :: "action list" where
  "ws_leave_locks = broadcast_locks True @ guard Ws_mutex"

text \<open>
  The operations without a join, and what a thread does that executes any number of them.
  \<open>single\<close> stands for the operations that take one mutex once: the lookups of a client, the
  lists (\<open>/users\<close>, \<open>/info\<close>, \<open>/rooms\<close>, \<open>/roommembers\<close>), the histories, \<open>/transfer\<close>, the file
  relays, \<open>sendSystemMessage\<close>, \<open>addMessageToHistory\<close> and the WebSocket client table.
\<close>

inductive operation :: "action list \<Rightarrow> bool" where
  single: "operation (guard l)"
| broadcasting: "operation (broadcast_locks ws)"
| sending: "operation (sendToClient_locks found ws)"
| logging_in: "operation (login_locks ws new_account p)"
| registering: "operation (register_locks ws p)"
| renaming: "operation (nick_locks ws p)"
| whispering: "operation (whisper_locks p)"
| creating_room: "operation (createroom_locks ws p)"
| joining_room: "operation (joinroom_locks ws p)"
| leaving_room: "operation (leaveroom_locks ws p)"
| muting: "operation (mute_locks ws p)"
| file_to_room: "operation (member_sockets_locks found)"
| room_line: "operation (room_line_locks found)"
| msg_line: "operation (message_locks ws d)"
| text_line: "operation (text_locks ws d)"
| receipt: "operation (receipt_locks n)"
| loading: "operation (load_locks accounts messages)"
| saving: "operation save_locks"
| accepting: "operation accept_locks"
| removing_unthreaded: "operation (remove_locks None)"
| ws_logging_in: "operation (ws_login_locks free)"
| ws_leaving: "operation ws_leave_locks"

inductive server_program :: "action list \<Rightarrow> bool" where
  idle: "server_program []"
| busy: "operation op \<Longrightarrow> server_program p \<Longrightarrow> server_program (op @ p)"

section \<open>The lock order\<close>

text \<open>
  With locks \<open>hs\<close> held, each further lock is above all of them, a lock is released when it
  is the innermost, nothing is joined, and at the end nothing is held.
\<close>

fun ordered_from :: "lock list \<Rightarrow> action list \<Rightarrow> bool" where
  "ordered_from hs [] = (hs = [])"
| "ordered_from hs (Acquire l # as) = (list_all (\<lambda>h. h < l) hs \<and> ordered_from (l # hs) as)"
| "ordered_from hs (Release l # as) = (hs \<noteq> [] \<and> hd hs = l \<and> ordered_from (tl hs) as)"
| "ordered_from hs (Join t # as) = False"

named_theorems lock_defs

declare broadcast_locks_def [lock_defs] sendToClient_locks_def [lock_defs] login_locks_def [lock_defs]
  register_locks_def [lock_defs] nick_locks_def [lock_defs] whisper_locks_def [lock_defs]
  createroom_locks_def [lock_defs] joinroom_locks_def [lock_defs] leaveroom_locks_def [lock_defs]
  mute_locks_def [lock_defs] member_sockets_locks_def [lock_defs] room_line_locks_def [lock_defs]
  message_locks_def [lock_defs] text_locks_def [lock_defs] receipt_locks_def [lock_defs]
  load_locks_def [lock_defs] save_locks_def [lock_defs] accept_locks_def [lock_defs]
  remove_locks_def [lock_defs] ws_login_locks_def [lock_defs] ws_leave_locks_def [lock_defs]
  kick_locks_def [lock_defs]

lemma ordered_guard [simp]:
  "ordered_from hs (guard l @ as) \<longleftrightarrow> list_all (\<lambda>h. h < l) hs \<and> ordered_from hs as"
  by (simp add: guard_def)

lemma ordered_guards [simp]:
  "ordered_from hs (concat (replicate n (guard l)) @ as) \<longleftrightarrow>
     (n \<noteq> 0 \<longrightarrow> list_all (\<lambda>h. h < l) hs) \<and> ordered_from hs as"
  by (induction n) auto

lemma ordered_around [simp]:
  "ordered_from hs (guard_around l inner @ as) \<longleftrightarrow>
     list_all (\<lambda>h. h < l) hs \<and> ordered_from (l # hs) (inner @ Release l # as)"
  by (simp add: guard_around_def)

lemma ordered_operation: "operation op \<Longrightarrow> ordered_from [] as \<Longrightarrow> ordered_from [] (op @ as)"
  by (cases rule: operation.cases)
     (auto simp: lock_defs less_lock_def split: path.split delivery.split)

lemma ordered_program: "server_program p \<Longrightarrow> ordered_from [] p"
  by (induction rule: server_program.induct) (simp_all add: ordered_operation)

section \<open>Threads without joins are never stuck\<close>

text \<open>Every thread keeps the order, and no two threads hold the same lock.\<close>

definition disciplined :: "thread list \<Rightarrow> bool" where
  "disciplined ts \<longleftrightarrow> (\<forall>i < length ts. ordered_from (snd (ts ! i)) (fst (ts ! i)))
     \<and> (\<forall>i < length ts. \<forall>j < length ts. i \<noteq> j \<longrightarrow> set (snd (ts ! i)) \<inter> set (snd (ts ! j)) = {})"

lemma available_iff:
  "available l i ts \<longleftrightarrow> (\<forall>j < length ts. l \<in> set (snd (ts ! j)) \<longrightarrow> j = i \<and> l = Clients_mutex)"
  by (auto simp: available_def list_all_iff)

lemma thread_step_SomeE:
  assumes "thread_step i ts = Some us"
  obtains th where "i < length ts" "advance i ts (ts ! i) = Some th" "us = ts[i := th]"
  using assms by (auto simp: thread_step_def split: if_splits)

lemma advance_disciplined:
  assumes "advance i ts (as, hs) = Some (bs, ks)" and "ordered_from hs as"
  shows "ordered_from ks bs
     \<and> (set ks \<subseteq> set hs \<or> (\<exists>l. set ks = insert l (set hs) \<and> available l i ts))"
proof (cases as)
  case (Cons a as')
  show ?thesis
  proof (cases a)
    case (Release l)
    with assms Cons obtain hs' where "hs = l # hs'" by (cases hs) auto
    with assms Cons Release show ?thesis by auto
  qed (use assms Cons in \<open>auto split: if_splits\<close>)
qed (use assms in simp)

lemma disciplined_step:
  assumes "disciplined ts" and "thread_step i ts = Some us"
  shows "disciplined us"
proof -
  obtain bs ks where i: "i < length ts" and adv: "advance i ts (ts ! i) = Some (bs, ks)"
    and us: "us = ts[i := (bs, ks)]"
    using assms(2) by (elim thread_step_SomeE) auto
  obtain as hs where th: "ts ! i = (as, hs)" by fastforce
  have ord: "ordered_from hs as" using assms(1) i th by (auto simp: disciplined_def)
  note new = advance_disciplined [OF adv [unfolded th] ord]
  have apart: "set ks \<inter> set (snd (ts ! j)) = {}" if "j < length ts" "j \<noteq> i" for j
  proof -
    have "set hs \<inter> set (snd (ts ! j)) = {}" using assms(1) i that th by (fastforce simp: disciplined_def)
    then show ?thesis using new that by (auto simp: available_iff)
  qed
  show ?thesis unfolding disciplined_def us
  proof (intro conjI allI impI)
    fix j assume "j < length (ts[i := (bs, ks)])"
    then show "ordered_from (snd (ts[i := (bs, ks)] ! j)) (fst (ts[i := (bs, ks)] ! j))"
      using assms(1) new i by (cases "j = i") (auto simp: disciplined_def)
  next
    fix j k assume "j < length (ts[i := (bs, ks)])" "k < length (ts[i := (bs, ks)])" "j \<noteq> k"
    then show "set (snd (ts[i := (bs, ks)] ! j)) \<inter> set (snd (ts[i := (bs, ks)] ! k)) = {}"
      using apart [of j] apart [of k] assms(1) i
      by (cases "j = i"; cases "k = i") (auto simp: disciplined_def)
  qed
qed

lemma disciplined_runs: "runs ts us \<Longrightarrow> disciplined ts \<Longrightarrow> disciplined us"
  by (induction rule: runs.induct) (auto intro: disciplined_step)

lemma disciplined_spawn: "list_all server_program ps \<Longrightarrow> disciplined (spawn ps)"
  by (auto simp: disciplined_def spawn_def list_all_length intro: ordered_program)

text \<open>
  Among the locks that are waited for take the highest: the thread that holds it waits for a
  higher one, unless it can go on.
\<close>

lemma disciplined_progress:
  assumes "disciplined ts" and "i < length ts" and "\<not> finished (ts ! i)"
  shows "\<exists>j us. thread_step j ts = Some us"
proof (rule ccontr)
  assume none: "\<nexists>j us. thread_step j ts = Some us"
  have stuck: "advance j ts (ts ! j) = None" if "j < length ts" for j
  proof (rule ccontr)
    assume "advance j ts (ts ! j) \<noteq> None"
    then obtain th where "advance j ts (ts ! j) = Some th" by auto
    then have "thread_step j ts = Some (ts[j := th])" using that by (simp add: thread_step_def)
    then show False using none by blast
  qed
  have waits: "\<exists>l as. fst (ts ! j) = Acquire l # as \<and> \<not> available l j ts
      \<and> (\<forall>h \<in> set (snd (ts ! j)). h < l)"
    if j: "j < length ts" and u: "\<not> finished (ts ! j)" for j
  proof -
    obtain a as hs where th: "ts ! j = (a # as, hs)"
      using u by (cases "ts ! j"; cases "fst (ts ! j)") (auto simp: finished_def)
    have "ordered_from hs (a # as)" using assms(1) j th by (auto simp: disciplined_def)
    with stuck [OF j] th show ?thesis by (cases a) (auto simp: list_all_iff split: if_splits)
  qed
  define W where "W = {l. \<exists>j < length ts. \<exists>as. fst (ts ! j) = Acquire l # as}"
  have "W \<subseteq> (\<lambda>j. case fst (ts ! j) of Acquire l # _ \<Rightarrow> l | _ \<Rightarrow> Ws_mutex) ` {..<length ts}"
    by (force simp: W_def)
  then have "finite W" by (rule finite_subset) simp
  moreover have "W \<noteq> {}" using waits [OF assms(2,3)] assms(2) by (auto simp: W_def)
  ultimately have "Max W \<in> W" by (rule Max_in)
  then obtain j as where j: "j < length ts" and head: "fst (ts ! j) = Acquire (Max W) # as"
    by (auto simp: W_def)
  with waits [of j] have "\<not> available (Max W) j ts" and below: "\<forall>h \<in> set (snd (ts ! j)). h < Max W"
    by (auto simp: finished_def)
  then obtain k where k: "k < length ts" "Max W \<in> set (snd (ts ! k))"
    by (auto simp: available_iff)
  then have "\<not> finished (ts ! k)" using assms(1) by (auto simp: disciplined_def finished_def)
  with waits [OF k(1)] k obtain l bs where "fst (ts ! k) = Acquire l # bs" and "Max W < l" by auto
  then show False using Max_ge [OF \<open>finite W\<close>, of l] k(1) by (auto simp: W_def not_le [symmetric])
qed

text \<open>Every step is one action less.\<close>

definition to_do :: "thread list \<Rightarrow> nat" where
  "to_do ts = sum_list (map (\<lambda>th. length (fst th)) ts)"

lemma advance_length: "advance i ts (as, hs) = Some (bs, ks) \<Longrightarrow> length as = Suc (length bs)"
  by (cases "(i, ts, as, hs)" rule: advance.cases) (auto split: if_splits)

lemma to_do_step:
  assumes "thread_step i ts = Some us"
  shows "to_do ts = Suc (to_do us)"
proof -
  obtain bs ks where i: "i < length ts" and adv: "advance i ts (ts ! i) = Some (bs, ks)"
    and us: "us = ts[i := (bs, ks)]"
    using assms by (elim thread_step_SomeE) auto
  have "length (fst (ts ! i)) = Suc (length bs)"
    using advance_length [of i ts "fst (ts ! i)" "snd (ts ! i)"] adv by simp
  moreover have "length (fst (ts ! i)) \<le> to_do ts"
    using i by (auto simp: to_do_def intro: member_le_sum_list)
  ultimately show ?thesis
    using i unfolding us to_do_def by (simp add: map_update sum_list_update)
qed

lemma disciplined_completes:
  assumes "disciplined ts"
  shows "\<exists>us. runs ts us \<and> list_all finished us"
proof -
  have "runs ts us \<Longrightarrow> \<exists>vs. runs ts vs \<and> list_all finished vs" for us
  proof (induction "to_do us" arbitrary: us rule: less_induct)
    case less
    show ?case
    proof (cases "list_all finished us")
      case False
      then obtain i where "i < length us" "\<not> finished (us ! i)" by (auto simp: list_all_length)
      with disciplined_progress disciplined_runs [OF less.prems assms]
      obtain j vs where "thread_step j us = Some vs" by blast
      with less.hyps [of vs] less.prems to_do_step show ?thesis
        by (auto intro: runs.runs_more)
    qed (use less.prems in blast)
  qed
  then show ?thesis using runs.runs_none by blast
qed

section \<open>A join with threads_mutex_ held\<close>

text \<open>
  The joining thread moves only when the other has nothing left to do, and the other cannot
  get past the mutex that the joining thread holds.
\<close>

lemma join_blocks:
  assumes "runs ts us" and "i < length ts" and "j < length ts" and "i \<noteq> j"
    and "fst (ts ! i) = Join j # as" and "Threads_mutex \<in> set (snd (ts ! i))"
    and "Acquire Threads_mutex \<in> set (fst (ts ! j))"
  shows "length us = length ts \<and> us ! i = ts ! i \<and> Acquire Threads_mutex \<in> set (fst (us ! j))"
  using assms(1)
proof (induction rule: runs.induct)
  case runs_none
  then show ?case using assms(7) by simp
next
  case (runs_more us k vs)
  then obtain th where k: "k < length us" and adv: "advance k us (us ! k) = Some th"
    and vs: "vs = us[k := th]" by (elim thread_step_SomeE)
  obtain hs where ti: "ts ! i = (Join j # as, hs)" and hs: "Threads_mutex \<in> set hs"
    using assms(5,6) by (cases "ts ! i") auto
  then have ui: "us ! i = (Join j # as, hs)" using runs_more.IH by simp
  have busy: "\<not> finished (us ! j)" using runs_more.IH by (auto simp: finished_def)
  have "k \<noteq> i" using adv ui busy by auto
  moreover have "Acquire Threads_mutex \<in> set (fst th)" if "k = j"
  proof -
    obtain a bs ks where uj: "us ! j = (a # bs, ks)"
      using busy by (cases "us ! j"; cases "fst (us ! j)") (auto simp: finished_def)
    have "i < length us" "Threads_mutex \<in> set (snd (us ! i))"
      using runs_more.IH assms(2,6) by auto
    then have "\<not> available Threads_mutex j us" using assms(4) by (auto simp: available_iff)
    then have "a \<noteq> Acquire Threads_mutex" using adv uj that by auto
    then have "Acquire Threads_mutex \<in> set bs" using runs_more.IH uj by auto
    then show ?thesis using adv uj that by (cases a) (auto split: if_splits)
  qed
  ultimately show ?case using runs_more.IH k vs assms(3) by (cases "k = j") auto
qed

text \<open>A thread runs through a guarded block while no other thread holds anything.\<close>

definition alone :: "nat \<Rightarrow> thread list \<Rightarrow> bool" where
  "alone i ts \<longleftrightarrow> i < length ts \<and> (\<forall>j < length ts. j \<noteq> i \<longrightarrow> snd (ts ! j) = [])"

lemma alone_acquire:
  assumes "alone i ts" and "ts ! i = (Acquire l # as, hs)" and "l \<notin> set hs"
  shows "thread_step i ts = Some (ts[i := (as, l # hs)])"
proof -
  have "available l i ts" unfolding available_iff using assms by (auto simp: alone_def)
  then show ?thesis using assms(1,2) by (simp add: thread_step_def alone_def)
qed

lemma run_guard:
  assumes "runs ts us" and "alone i us" and "us ! i = (guard l @ as, [])"
  shows "runs ts (us[i := (as, [])])" and "alone i (us[i := (as, [])])"
proof -
  have i: "i < length us" using assms(2) by (simp add: alone_def)
  have "thread_step i us = Some (us[i := (Release l # as, [l])])"
    using alone_acquire [OF assms(2)] assms(3) by (simp add: guard_def)
  moreover have "thread_step i (us[i := (Release l # as, [l])]) = Some (us[i := (as, [])])"
    using i by (simp add: thread_step_def)
  ultimately show "runs ts (us[i := (as, [])])" using assms(1) by (auto intro: runs.runs_more)
  show "alone i (us[i := (as, [])])" using assms(2) by (auto simp: alone_def nth_list_update)
qed

lemma run_guards:
  assumes "runs ts us" and "alone i us" and "us ! i = (concat (map guard ls) @ as, [])"
  shows "runs ts (us[i := (as, [])]) \<and> alone i (us[i := (as, [])])"
  using assms
proof (induction ls arbitrary: us)
  case Nil
  then have "us[i := (as, [])] = us" by (simp add: list_update_same_conv alone_def)
  with Nil show ?case by simp
next
  case (Cons l ls)
  let ?vs = "us[i := (concat (map guard ls) @ as, [])]"
  have "runs ts ?vs" "alone i ?vs"
    using run_guard [OF Cons.prems(1,2), of l "concat (map guard ls) @ as"] Cons.prems(3) by simp_all
  moreover have "?vs ! i = (concat (map guard ls) @ as, [])" using Cons.prems(2) by (simp add: alone_def)
  ultimately show ?case using Cons.IH [of ?vs] by simp
qed

definition kick_guards :: "bool \<Rightarrow> lock list" where
  "kick_guards ws = [Clients_mutex, Clients_mutex] @ (if ws then [Ws_mutex] else []) @ [Clients_mutex]"

lemma kick_locks_eq:
  "kick_locks ws (Some j) =
     concat (map guard (kick_guards ws)) @ Acquire Threads_mutex # Join j # [Release Threads_mutex]"
  by (simp add: kick_guards_def lock_defs guard_around_def)

section \<open>Properties\<close>

text \<open>C5: The mutexes cannot block the server: however the threads are interleaved that accept
  connections, handle lines, serve WebSocket sessions and save files, as long as none of them
  removes a client with a thread, a state in which not all are done has a thread that can go
  on, every step uses up one action, and all can be brought to their end.\<close>

theorem no_lock_deadlock:
  assumes "list_all server_program ps" and "runs (spawn ps) ts"
  shows "(list_all finished ts \<or> (\<exists>i us. thread_step i ts = Some us \<and> to_do ts = Suc (to_do us)))
    \<and> (\<exists>us. runs ts us \<and> list_all finished us)"
proof -
  have d: "disciplined ts" by (rule disciplined_runs [OF assms(2) disciplined_spawn [OF assms(1)]])
  have "\<exists>i us. thread_step i ts = Some us \<and> to_do ts = Suc (to_do us)" if "\<not> list_all finished ts"
    using that disciplined_progress [OF d] to_do_step by (fastforce simp: list_all_length)
  with disciplined_completes [OF d] show ?thesis by blast
qed

theorem no_lock_deadlock_witness:
  "\<exists>us. runs (spawn [register_locks True Done, receipt_locks 2, member_sockets_locks True]) us
     \<and> list_all finished us"
proof -
  have "server_program (register_locks True Done)" "server_program (receipt_locks 2)"
    "server_program (member_sockets_locks True)"
    using server_program.busy [OF _ server_program.idle] operation.intros by (metis append_Nil2)+
  then show ?thesis
    using no_lock_deadlock [OF _ runs.runs_none, of
        "[register_locks True Done, receipt_locks 2, member_sockets_locks True]"] by simp
qed

text \<open>C6: A kick blocks for ever: when an administrator's thread kicks a client whose thread
  ends, as it must, by removing itself, then the administrator's thread can reach its join,
  and from there, in every interleaving with whatever other threads, neither of the two ever
  finishes, and no third thread gets \<open>threads_mutex_\<close>.\<close>

theorem kick_deadlock:
  assumes "i < length ps" and "j < length ps" and "i \<noteq> j"
    and "ps ! i = kick_locks ws (Some j)" and "ps ! j = p @ remove_locks entry"
  shows "\<exists>ts. runs (spawn ps) ts \<and> (\<forall>us. runs ts us \<longrightarrow>
     \<not> finished (us ! i) \<and> \<not> finished (us ! j)
     \<and> (\<forall>k. k \<noteq> i \<longrightarrow> \<not> available Threads_mutex k us))"
proof -
  let ?rest = "Acquire Threads_mutex # Join j # [Release Threads_mutex]"
  let ?us = "(spawn ps)[i := (?rest, [])]"
  let ?ts = "?us[i := (Join j # [Release Threads_mutex], [Threads_mutex])]"
  have "alone i (spawn ps)" and "spawn ps ! i = (concat (map guard (kick_guards ws)) @ ?rest, [])"
    using assms(1,4) by (simp_all add: alone_def spawn_def kick_locks_eq)
  with run_guards [OF runs.runs_none] have run: "runs (spawn ps) ?us" and "alone i ?us" by blast+
  moreover have "?us ! i = (?rest, [])" using assms(1) by (simp add: spawn_def)
  ultimately have "thread_step i ?us = Some ?ts" by (intro alone_acquire) simp_all
  with run have "runs (spawn ps) ?ts" by (rule runs.runs_more)
  moreover have "\<not> finished (us ! i) \<and> \<not> finished (us ! j)
      \<and> (\<forall>k. k \<noteq> i \<longrightarrow> \<not> available Threads_mutex k us)" if "runs ?ts us" for us
  proof -
    have at: "?ts ! i = (Join j # [Release Threads_mutex], [Threads_mutex])" "length ?ts = length ps"
      using assms(1) by (simp_all add: spawn_def)
    have "?ts ! j = (p @ remove_locks entry, [])" using assms(2,3,5) by (simp add: spawn_def)
    then have "Acquire Threads_mutex \<in> set (fst (?ts ! j))" by (simp add: remove_locks_def guard_around_def)
    then have "length us = length ps" "us ! i = ?ts ! i" "Acquire Threads_mutex \<in> set (fst (us ! j))"
      using join_blocks [OF that, of i j "[Release Threads_mutex]"] assms(1-3) at by auto
    then show ?thesis using at assms(1) by (auto simp: finished_def available_iff)
  qed
  ultimately show ?thesis by blast
qed

theorem kick_deadlock_witness:
  "\<exists>ts. runs (spawn [kick_locks False (Some 1), remove_locks (Some 1)]) ts
     \<and> \<not> finished (ts ! 0) \<and> \<not> finished (ts ! 1) \<and> \<not> available Threads_mutex 1 ts"
  using kick_deadlock [of 0 "[kick_locks False (Some 1), remove_locks (Some 1)]" 1 False "[]" "Some 1"]
    runs.runs_none by auto

end
