(* ===== verification/Race.thy ===== *)
theory Race
  imports Lifecycle
begin

text \<open>
  \<open>/login\<close> in the pieces between which the scheduler can switch threads: each block under a
  mutex and each write is one step, and the thread keeps its local variables in between. One
  thread alone computes what \<open>handle_login\<close> does; the steps of several threads keep the
  tables consistent in every interleaving, but two of them can take the same name.
\<close>

section \<open>The steps of a login\<close>

datatype login_phase =
    Asked string string
  | Name_free string string
  | Looked_up string string "string option"
  | Hashed string string
  | Admitted string
  | Renamed string
  | Told string
  | Over

fun login_step :: "env \<Rightarrow> int \<Rightarrow> login_phase \<Rightarrow> server \<Rightarrow> (abort \<times> server) + login_phase \<times> server" where
  "login_step e fd (Asked name password) s =
     (if getClientByName name s \<noteq> None
      then Inr (Over, sendToSocket fd (encodeError ''Name already taken'') s)
      else Inr (Name_free name password, s))"
| "login_step e fd (Name_free name password) s =
     Inr (Looked_up name password (map_of (users s) name), s)"
| "login_step e fd (Looked_up name password (Some stored_password)) s =
     (if password = []
      then Inr (Over, sendToSocket fd (encodeError ''Password required for existing user'') s)
      else case verifyPassword password stored_password of
             Inl a \<Rightarrow> Inl (a, s)
           | Inr ok \<Rightarrow>
               if \<not> ok then Inr (Over, sendToSocket fd (encodeError ''Invalid password'') s)
               else Inr (Admitted name, s))"
| "login_step e fd (Looked_up name password None) s =
     (if password \<noteq> []
      then (case hashPassword (draw_salt e) password of
              Inl a \<Rightarrow> Inl (a, s)
            | Inr hashed_password \<Rightarrow> Inr (Hashed name hashed_password, s))
      else Inr (Admitted name, s))"
| "login_step e fd (Hashed name hashed_password) s =
     Inr (Admitted name, s\<lparr>users := AList.update name hashed_password (users s)\<rparr>)"
| "login_step e fd (Admitted name) s = Inr (Renamed name, login_block fd name s)"
| "login_step e fd (Renamed name) s =
     Inr (Told name, sendToSocket fd (encodeSuccess (''Logged in as '' @ name)) s)"
| "login_step e fd (Told name) s =
     Inr (Over, broadcast (encodeSystemMessage (name @ '' joined the chat'')) s)"
| "login_step e fd Over s = Inr (Over, s)"

fun login_run :: "env \<Rightarrow> int \<Rightarrow> nat \<Rightarrow> login_phase \<times> server \<Rightarrow> (abort \<times> server) + login_phase \<times> server" where
  "login_run e fd 0 st = Inr st"
| "login_run e fd (Suc n) st =
     (case login_step e fd (fst st) (snd st) of Inl a \<Rightarrow> Inl a | Inr st' \<Rightarrow> login_run e fd n st')"

section \<open>Several threads\<close>

record race =
  phase :: "int \<Rightarrow> login_phase"
  srv :: server

text \<open>
  A client sends \<open>/login\<close>, its thread executes a step, or anything else happens to the server
  in one step.
\<close>

inductive race_step :: "race \<Rightarrow> race \<Rightarrow> bool" where
  submit: "phase r fd = Over \<Longrightarrow>
     race_step r (r\<lparr>phase := (phase r)(fd := Asked name password)\<rparr>)"
| login: "login_step e fd (phase r fd) (srv r) = Inr (ph, t) \<Longrightarrow>
     race_step r (r\<lparr>phase := (phase r)(fd := ph), srv := t\<rparr>)"
| other: "server_step (srv r) (Inr t) \<Longrightarrow> race_step r (r\<lparr>srv := t\<rparr>)"

inductive races :: "race \<Rightarrow> race \<Rightarrow> bool" for r where
  races_none: "races r r"
| races_more: "races r r1 \<Longrightarrow> race_step r1 r2 \<Longrightarrow> races r r2"

lemma server_inv_login_step:
  "login_step e fd ph s = Inr (ph', t) \<Longrightarrow> server_inv s \<Longrightarrow> server_inv t"
  by (cases "(e, fd, ph, s)" rule: login_step.cases)
     (auto split: if_splits sum.splits intro!: inv_intros)

lemma races_login:
  assumes "races r r1" and "phase r1 fd = ph" and "srv r1 = s" and "login_step e fd ph s = Inr (ph', t)"
  shows "races r (r1\<lparr>phase := (phase r1)(fd := ph'), srv := t\<rparr>)"
  using races.races_more [OF assms(1) race_step.login] assms(2-4) by simp

section \<open>Properties\<close>




definition sample_race :: race where
  "sample_race = \<lparr>phase = (\<lambda>_. Over)(5 := Asked ''bob'' [], 6 := Asked ''bob'' []), srv = sample_server\<rparr>"


text \<open>Two threads that log in, and their steps.\<close>

definition pair :: "int \<Rightarrow> int \<Rightarrow> login_phase \<Rightarrow> login_phase \<Rightarrow> server \<Rightarrow> race" where
  "pair f g a b s = \<lparr>phase = (\<lambda>_. Over)(f := a, g := b), srv = s\<rparr>"

lemma pair_step:
  assumes "f \<noteq> g" and "races r (pair f g a b s)"
  shows "login_step e f a s = Inr (a', t) \<Longrightarrow> races r (pair f g a' b t)"
    and "login_step e g b s = Inr (b', t) \<Longrightarrow> races r (pair f g a b' t)"
proof -
  assume "login_step e f a s = Inr (a', t)"
  then show "races r (pair f g a' b t)"
    using races_login [OF assms(2), of f a s e a' t] assms(1) by (simp add: pair_def fun_upd_twist)
next
  assume "login_step e g b s = Inr (b', t)"
  then show "races r (pair f g a b' t)"
    using races_login [OF assms(2), of g b s e b' t] assms(1) by (simp add: pair_def)
qed

lemma pair_admitted:
  assumes "f \<noteq> g" and "getClientByName name s = None" and "map_of (users s) name = None"
  shows "races (pair f g (Asked name []) (Asked name []) s) (pair f g (Admitted name) (Admitted name) s)"
    (is "races ?r _")
proof -
  have "races ?r (pair f g (Name_free name []) (Asked name []) s)"
    using pair_step(1) [OF assms(1) races.races_none] assms(2) by simp
  then have "races ?r (pair f g (Name_free name []) (Name_free name []) s)"
    using pair_step(2) [OF assms(1)] assms(2) by simp
  then have "races ?r (pair f g (Looked_up name [] None) (Name_free name []) s)"
    using pair_step(1) [OF assms(1)] assms(3) by simp
  then have "races ?r (pair f g (Looked_up name [] None) (Looked_up name [] None) s)"
    using pair_step(2) [OF assms(1)] assms(3) by simp
  then have "races ?r (pair f g (Admitted name) (Looked_up name [] None) s)"
    using pair_step(1) [OF assms(1)] by simp
  then show ?thesis using pair_step(2) [OF assms(1)] by simp
qed

lemma pair_finished:
  assumes "f \<noteq> g" and "races r (pair f g (Admitted n) (Admitted n) s)"
  shows "races r (pair f g Over Over (login_finish g n (login_finish f n s)))"
proof -
  let ?s = "\<lambda>k s. sendToSocket k (encodeSuccess (''Logged in as '' @ n)) (login_block k n s)"
  have "races r (pair f g (Renamed n) (Admitted n) (login_block f n s))"
    using pair_step(1) [OF assms] by simp
  then have "races r (pair f g (Told n) (Admitted n) (?s f s))"
    using pair_step(1) [OF assms(1)] by simp
  then have "races r (pair f g Over (Admitted n) (login_finish f n s))"
    using pair_step(1) [OF assms(1)] by (simp add: login_finish_def)
  then have "races r (pair f g Over (Renamed n) (login_block g n (login_finish f n s)))"
    using pair_step(2) [OF assms(1)] by simp
  then have "races r (pair f g Over (Told n) (?s g (login_finish f n s)))"
    using pair_step(2) [OF assms(1)] by simp
  then show ?thesis using pair_step(2) [OF assms(1)] by (simp add: login_finish_def)
qed

text \<open>C22: The name check races: two clients that log in at the same time under a free name
  without an account can both pass the check and both be logged in under it; the name then
  leads to one of them only, and when the other one leaves it leads to nobody, although the
  first is still connected and logged in under it.\<close>

theorem login_race:
  assumes "map_of (clients s) f = Some c" and "map_of (clients s) g = Some d" and "f \<noteq> g"
    and "getClientByName name s = None" and "map_of (users s) name = None"
  shows "\<exists>r c' d'. races (pair f g (Asked name []) (Asked name []) s) r
     \<and> phase r f = Over \<and> phase r g = Over
     \<and> map_of (clients (srv r)) f = Some c' \<and> ci_name c' = name \<and> is_logged_in c'
     \<and> map_of (clients (srv r)) g = Some d' \<and> ci_name d' = name \<and> is_logged_in d'
     \<and> map_of (name_to_socket (srv r)) name = Some g
     \<and> map_of (name_to_socket (snd (forget_client f (srv r)))) name = None
     \<and> map_of (clients (snd (forget_client f (srv r)))) g = Some d'"
proof -
  let ?t = "login_finish g name (login_finish f name s)" and ?a = "length (users s) = 1"
  let ?in = "\<lambda>c. c\<lparr>ci_name := name, is_logged_in := True, is_admin := is_admin c \<or> ?a\<rparr>"
  have "map_of (clients (login_finish f name s)) g = Some d"
    using login_finish_tables(1) [OF assms(1)] assms(2,3) by simp
  then have "map_of (clients ?t) f = Some (?in c)" "map_of (clients ?t) g = Some (?in d)"
    "map_of (name_to_socket ?t) name = Some g"
    using login_finish_tables [OF assms(1), of name]
      login_finish_tables [of "login_finish f name s" g d name] assms(3) by simp_all
  then show ?thesis
    using pair_finished [OF assms(3) pair_admitted [OF assms(3-5)]] assms(3)
    by (intro exI [of _ "pair f g Over Over ?t"] exI [of _ "?in c"] exI [of _ "?in d"])
       (simp add: pair_def forget_client_def delete_conv')
qed

theorem login_race_witness:
  "\<exists>r c' d'. races (pair 5 6 (Asked ''bob'' []) (Asked ''bob'' []) sample_server) r
     \<and> map_of (clients (srv r)) 5 = Some c' \<and> ci_name c' = ''bob''
     \<and> map_of (clients (srv r)) 6 = Some d' \<and> ci_name d' = ''bob''
     \<and> map_of (name_to_socket (snd (forget_client 5 (srv r)))) ''bob'' = None"
  using login_race [of sample_server 5 "sample_client 5 ''ann''" 6 "sample_client 6 ''Guest_6''" "''bob''"]
  by (auto simp: getClientByName_def getClientByNameUnlocked_def)

end
