(* ===== verification/Room_Directory.thy ===== *)
theory Room_Directory
  imports Handler
begin

text \<open>
  The abstract specification of the rooms: a directory from room names to the set of their
  members, changed by its owner's creations, joins and departures only. Every line that a
  client sends refines one abstract step of that client.
\<close>

section \<open>The specification\<close>

type_synonym directory = "string \<Rightarrow> string set option"

inductive room_step :: "string \<Rightarrow> directory \<Rightarrow> directory \<Rightarrow> bool" for n where
  unchanged: "room_step n V V"
| opened: "V r = None \<Longrightarrow> room_step n V (V(r \<mapsto> {n}))"
| entered: "V r = Some M \<Longrightarrow> n \<notin> M \<Longrightarrow> room_step n V (V(r \<mapsto> insert n M))"
| left: "V r = Some M \<Longrightarrow> room_step n V (V(r := if M \<subseteq> {n} then None else Some (M - {n})))"

inductive_cases room_stepE: "room_step n V V'"

text \<open>What the steps promise: no room is empty, and nobody moves anybody else.\<close>

lemma room_step_others:
  assumes "room_step n V V'" and "V r = Some M" and "m \<in> M" and "m \<noteq> n"
  shows "\<exists>M'. V' r = Some M' \<and> m \<in> M'"
  using assms by (cases rule: room_step.cases) (auto split: if_splits)

lemma room_step_members:
  assumes "room_step n V V'" and "V' r = Some M'" and "m \<in> M'" and "m \<noteq> n"
  shows "\<exists>M. V r = Some M \<and> m \<in> M"
  using assms by (cases rule: room_step.cases) (auto split: if_splits)

definition room_view :: "server \<Rightarrow> directory" where
  "room_view s = (\<lambda>r. map_option (\<lambda>room. set (members room)) (map_of (rooms s) r))"

section \<open>The operations that leave the rooms alone\<close>

named_theorems roomless

lemma roomless_primitives [roomless]:
  "rooms (sendToSocket fd m s) = rooms s" "rooms (broadcast m s) = rooms s"
  "rooms (message_event msg s) = rooms s" "rooms (addMessageToHistory msg s) = rooms s"
  "rooms (modify_client fd f s) = rooms s" "rooms (login_block fd name s) = rooms s"
  "rooms (nick_block fd name s) = rooms s" "rooms (snd (saveUsers e file s)) = rooms s"
  "rooms (send_to_members room m s) = rooms s" "rooms (send_to_sockets fds m s) = rooms s"
  "rooms (send_history e fd title ms s) = rooms s" "rooms (disconnect_event name fd s) = rooms s"
  "rooms (emit ev s) = rooms s"
  by (simp_all add: handler_defs addMessageToHistory_def modify_client_def login_block_def nick_block_def
      saveUsers_def send_to_members_eq disconnect_event_def emit_def Let_def split: option.split)

lemma roomless_accounts [roomless]:
  "rooms (login_finish fd name s) = rooms s" "rooms (handle_users fd s) = rooms s"
  "rooms (handle_nick fd client iss s) = rooms s"
  by (simp_all add: login_finish_def handle_users_def handle_nick_def Let_def roomless)

lemma roomless_messages [roomless]:
  "rooms (login_first fd s) = rooms s" "rooms (route_msg fd message msg s) = rooms s"
  "rooms (say e fd client message s) = rooms s" "rooms (handle_whisper e fd client iss s) = rooms s"
  "rooms (handle_history e fd iss s) = rooms s" "rooms (handle_roomhistory e fd client iss s) = rooms s"
  "rooms (handle_unknown e fd client cmd command s) = rooms s"
  by (simp_all add: login_first_def route_msg_def say_def handle_whisper_def handle_history_def
      handle_roomhistory_def handle_unknown_def Let_def roomless split: option.split prod.split)

lemma roomless_gate: "mute_gate e fd client s = (b, t) \<Longrightarrow> rooms t = rooms s"
  by (auto simp: mute_gate_def roomless split: if_splits)

lemma roomless_lines [roomless]:
  "rooms (handle_msg e fd message s) = rooms s" "rooms (handle_text e fd message s) = rooms s"
  using roomless_gate [of e fd _ s]
  by (auto simp: handle_msg_def handle_text_def roomless split: option.split prod.split)

lemma roomless_moderation [roomless]:
  "rooms (handle_mute e fd client iss s) = rooms s" "rooms (handle_unmute e fd client iss s) = rooms s"
  by (simp_all add: handle_mute_def handle_unmute_def Let_def roomless split: option.split prod.split)

lemma roomless_read_loop [roomless]:
  "(\<And>off data c s. rooms (send off data c s) = rooms s) \<Longrightarrow> rooms (read_loop send fsize off rest s) = rooms s"
  by (rule read_loop_keeps [where P = "\<lambda>t. rooms t = rooms s"]) simp_all

lemma roomless_files [roomless]:
  "rooms (handle_transfer fd client iss s) = rooms s" "rooms (handle_file fd client iss s) = rooms s"
  "rooms (relay_to fd rcvr message s) = rooms s" "rooms (relay fd rcvr message s) = rooms s"
  by (simp_all add: handle_transfer_def handle_file_def relay_to_def relay_eq Let_def roomless
      split: option.split prod.split)

lemma roomless_simple [roomless]:
  "rooms (handle_help fd s) = rooms s" "rooms (handle_info fd s) = rooms s"
  "rooms (handle_rooms fd s) = rooms s" "rooms (handle_roommembers fd client s) = rooms s"
  by (simp_all add: handle_help_def handle_info_def handle_rooms_def handle_roommembers_def Let_def roomless)

abbreviation same_rooms :: "server \<Rightarrow> result \<Rightarrow> bool" where
  "same_rooms s \<equiv> result_inv (\<lambda>t. rooms t = rooms s)"

lemma same_rooms_login_check:
  "login_check e fd name password s = Inr (b, t) \<Longrightarrow> rooms t = rooms s"
  by (auto simp: login_check_def roomless split: option.splits if_splits sum.splits)

lemma same_rooms_removeClient: "same_rooms s (removeClient self fd s)"
  by (auto simp: removeClient_def forget_client_def Let_def roomless split: option.split prod.split)

lemma same_rooms_results:
  "same_rooms s (handle_login e fd iss s)" "same_rooms s (handle_register e fd iss s)"
  "same_rooms s (handle_kick self fd client iss s)"
proof -
  show "same_rooms s (handle_login e fd iss s)" "same_rooms s (handle_register e fd iss s)"
    by (auto simp: handle_login_def handle_register_def Let_def try_call_def roomless
        dest: same_rooms_login_check split: prod.split sum.split)
  have "same_rooms s (closeClientSocket self k t)" if "rooms t = rooms s" for k t
    using same_rooms_removeClient [of t self k] that by (simp add: closeClientSocket_def)
  then show "same_rooms s (handle_kick self fd client iss s)"
    by (auto simp: handle_kick_def Let_def roomless split: prod.split option.split)
qed

section \<open>The operations on rooms\<close>

text \<open>The state moves by a step of the specification that belongs to the client named \<open>n\<close>.\<close>

definition walks :: "string \<Rightarrow> server \<Rightarrow> server \<Rightarrow> bool" where
  "walks n s t \<longleftrightarrow> room_step n (room_view s) (room_view t)"

lemma room_view_cong: "rooms t = rooms s \<Longrightarrow> room_view t = room_view s"
  by (simp add: room_view_def)

lemma walk_same: "rooms t = rooms s \<Longrightarrow> walks n s t"
  using room_view_cong [of t s] by (simp add: walks_def room_step.unchanged)

lemma walk_onwards: "walks n s t \<Longrightarrow> rooms t' = rooms t \<Longrightarrow> walks n s t'"
  using room_view_cong [of t' t] by (simp add: walks_def)

lemma view_put:
  "rooms t = AList.update r room (rooms s) \<Longrightarrow> room_view t = (room_view s)(r \<mapsto> set (members room))"
  by (auto simp: room_view_def update_conv')

lemma walk_open:
  assumes "rooms t = AList.update r room (rooms s)" and "map_of (rooms s) r = None" and "members room = [n]"
  shows "walks n s t"
  using room_step.opened [of "room_view s" r n] assms(2,3)
  unfolding walks_def view_put [OF assms(1)] by (simp add: room_view_def)

lemma walk_enter:
  assumes "rooms t = AList.update r room' (rooms s)" and "map_of (rooms s) r = Some room"
    and "members room' = members room @ [n]" and "n \<notin> set (members room)"
  shows "walks n s t"
  using room_step.entered [of "room_view s" r "set (members room)" n] assms(2-4)
  unfolding walks_def view_put [OF assms(1)] by (simp add: room_view_def)

lemma walk_remove_member: "walks n s (remove_member r n s)"
proof (cases "map_of (rooms s) r")
  case (Some room)
  let ?M = "set (members room)"
  have view: "room_view s r = Some ?M" using Some by (simp add: room_view_def)
  have empty: "filter (\<lambda>m. m \<noteq> n) (members room) = [] \<longleftrightarrow> ?M \<subseteq> {n}" by (auto simp: filter_empty_conv)
  have "room_view (remove_member r n s) = (room_view s)(r := if ?M \<subseteq> {n} then None else Some (?M - {n}))"
    using Some empty
    by (auto simp: remove_member_def Let_def room_view_def update_conv' delete_conv' fun_eq_iff)
  then show ?thesis using room_step.left [of "room_view s" r ?M n] view by (simp add: walks_def)
qed (simp add: remove_member_def walk_same)

lemma walk_put:
  assumes "map_of (rooms s) r = None \<and> members room = [n]
     \<or> (\<exists>old. map_of (rooms s) r = Some old \<and> members room = members old @ [n] \<and> n \<notin> set (members old))"
  shows "walks n s (s\<lparr>rooms := AList.update r room (rooms s)\<rparr>)"
  using assms walk_open [of "s\<lparr>rooms := AList.update r room (rooms s)\<rparr>" r room s n]
    walk_enter [of "s\<lparr>rooms := AList.update r room (rooms s)\<rparr>" r room s _ n] by auto

lemma walk_frames:
  "walks n s (sendToSocket fd m t) = walks n s t" "walks n s (broadcast m t) = walks n s t"
  "walks n s (modify_client fd f t) = walks n s t"
  by (simp_all add: walks_def room_view_def roomless)

lemma if_result: "(b \<Longrightarrow> result_inv P x) \<Longrightarrow> (\<not> b \<Longrightarrow> result_inv P y) \<Longrightarrow> result_inv P (if b then x else y)"
  by simp

lemma option_result:
  "(q = None \<Longrightarrow> result_inv P x) \<Longrightarrow> (\<And>t. q = Some t \<Longrightarrow> result_inv P (f t)) \<Longrightarrow>
     result_inv P (case q of None \<Rightarrow> x | Some t \<Rightarrow> f t)"
  by (cases q) simp_all

lemma walk_createroom: "result_inv (walks (ci_name c) s) (handle_createroom e fd c iss s)"
proof -
  obtain rname iss1 where r: "read_word iss = (rname, iss1)" by fastforce
  obtain flag iss2 where f: "read_word iss1 = (flag, iss2)" by fastforce
  show ?thesis
    unfolding handle_createroom_def Let_def r f prod.case
    by (intro if_result result_inv_try_call)
       (simp_all add: walk_frames walk_same walk_put)
qed

lemma walk_joinroom: "result_inv (walks (ci_name c) s) (handle_joinroom fd c iss s)"
proof -
  obtain rname iss1 where r: "read_word iss = (rname, iss1)" by fastforce
  show ?thesis
  proof (cases "map_of (rooms s) rname")
    case None
    then show ?thesis unfolding handle_joinroom_def Let_def r prod.case
      by (simp add: walk_frames walk_same)
  next
    case (Some room)
    then show ?thesis unfolding handle_joinroom_def Let_def r prod.case Some option.case
      by (intro if_result result_inv_try_call option_result)
         (simp_all add: walk_frames walk_same walk_put Some)
  qed
qed

lemma walk_leaveroom: "walks (ci_name c) s (handle_leaveroom fd c s)"
  unfolding handle_leaveroom_def Let_def
  by (auto simp: roomless intro: walk_same walk_onwards [OF walk_remove_member])

lemma walk_result: "walks n s t \<Longrightarrow> same_rooms t r \<Longrightarrow> result_inv (walks n s) r"
  by (cases r) (auto intro: walk_onwards)

lemma walk_quit: "result_inv (walks (ci_name c) s) (handle_quit self fd c s)"
  unfolding handle_quit_def Let_def
  by (rule walk_result [OF _ same_rooms_removeClient])
     (auto simp: roomless intro: walk_same walk_onwards [OF walk_remove_member])

definition room_commands :: "string set" where
  "room_commands = {''/createroom'', ''/cr'', ''/joinroom'', ''/jr'', ''/leaveroom'', ''/lr'', ''/quit'', ''/q''}"

lemma roomless_command:
  assumes "fst (read_word l) \<notin> room_commands"
  shows "same_rooms s (handle_command e self fd l c s)"
proof -
  obtain cmd iss where r: "read_word l = (cmd, iss)" by fastforce
  with assms have n: "cmd \<noteq> ''/createroom''" "cmd \<noteq> ''/cr''" "cmd \<noteq> ''/joinroom''" "cmd \<noteq> ''/jr''"
    "cmd \<noteq> ''/leaveroom''" "cmd \<noteq> ''/lr''" "cmd \<noteq> ''/quit''" "cmd \<noteq> ''/q''"
    by (simp_all add: room_commands_def)
  show ?thesis
    unfolding handle_command_def r prod.case Let_def
    by (simp add: n roomless same_rooms_results)
qed

lemma room_dispatch:
  assumes "read_word l = (cmd, iss)"
  shows "cmd = ''/createroom'' \<or> cmd = ''/cr'' \<Longrightarrow> handle_command e self fd l c s = handle_createroom e fd c iss s"
    and "cmd = ''/joinroom'' \<or> cmd = ''/jr'' \<Longrightarrow> handle_command e self fd l c s = handle_joinroom fd c iss s"
    and "cmd = ''/leaveroom'' \<or> cmd = ''/lr'' \<Longrightarrow> handle_command e self fd l c s = Inr (handle_leaveroom fd c s)"
  unfolding handle_command_def assms by ((elim disjE; simp) | simp)+

lemma in_pairsE:
  "c \<in> {a1, a2, b1, b2, d1, d2, e1, e2} \<Longrightarrow> (c = a1 \<or> c = a2 \<Longrightarrow> P) \<Longrightarrow> (c = b1 \<or> c = b2 \<Longrightarrow> P) \<Longrightarrow>
     (c = d1 \<or> c = d2 \<Longrightarrow> P) \<Longrightarrow> (c = e1 \<or> c = e2 \<Longrightarrow> P) \<Longrightarrow> P"
  by blast

lemma walk_command: "result_inv (walks (ci_name c) s) (handle_command e self fd l c s)"
proof (cases "fst (read_word l) \<in> room_commands")
  case True
  obtain cmd iss where r: "read_word l = (cmd, iss)" by fastforce
  from True have "cmd \<in> room_commands" using r by simp
  then show ?thesis
    unfolding room_commands_def
    by (elim in_pairsE)
       (simp_all add: room_dispatch [OF r] account_dispatch(4) [OF r] walk_createroom walk_joinroom
          walk_leaveroom walk_quit)
next
  case False
  from walk_result [OF walk_same [OF refl] roomless_command [OF False]] show ?thesis .
qed

lemma walk_line:
  assumes "map_of (clients s) fd = Some c" and "newline \<notin> set l"
  shows "result_inv (walks (ci_name c) s) (handle_line e self fd l s)"
proof -
  have "result_inv (walks (ci_name c) s) (handle_file_data fd l s)"
    using assms(2) file_data_abort [OF assms(2), of fd s]
    by (auto simp: handle_file_data_def try_call_def walk_same split: option.split sum.split)
  then show ?thesis
    using assms walk_command
    by (simp add: handle_line_def file_lines_total roomless walk_same getClientBySocket_def)
qed

section \<open>Properties\<close>

text \<open>C8: The rooms refine their specification: whatever line a client sends, the directory of
  rooms and their members changes by at most one step of the specification that belongs to
  this client, opening a room with itself as the only member, entering or leaving one; nobody
  else is moved, and a room ends with its last member.\<close>

theorem rooms_refine:
  assumes "map_of (clients s) fd = Some c" and "newline \<notin> set l"
  shows "result_inv (\<lambda>t. room_step (ci_name c) (room_view s) (room_view t)
      \<and> (\<forall>m. m \<noteq> ci_name c \<longrightarrow>
           (\<exists>M. room_view s r = Some M \<and> m \<in> M) = (\<exists>M. room_view t r = Some M \<and> m \<in> M)))
    (handle_line e self fd l s)"
proof -
  have "result_inv (walks (ci_name c) s) (handle_line e self fd l s)" by (rule walk_line [OF assms])
  then show ?thesis
    using room_step_others room_step_members
    by (fastforce simp: result_inv_def walks_def split: sum.splits)
qed

theorem rooms_refine_witness:
  "result_inv (\<lambda>t. (\<exists>M. room_view t ''bob'' = Some M \<and> ''ann'' \<in> M))
     (handle_line sample_env 1 6 ''/joinroom bob'' (sample_server\<lparr>rooms := [(''bob'', sample_room [])]\<rparr>))"
proof -
  let ?s = "sample_server\<lparr>rooms := [(''bob'', sample_room [])]\<rparr>"
  have "map_of (clients ?s) 6 = Some (sample_client 6 ''Guest_6'')" by simp
  from rooms_refine [OF this, of "''/joinroom bob''" "''bob''" sample_env 1]
  have "result_inv (\<lambda>t. room_step ''Guest_6'' (room_view ?s) (room_view t)
      \<and> (\<forall>m. m \<noteq> ''Guest_6'' \<longrightarrow> (\<exists>M. room_view ?s ''bob'' = Some M \<and> m \<in> M) =
           (\<exists>M. room_view t ''bob'' = Some M \<and> m \<in> M)))
      (handle_line sample_env 1 6 ''/joinroom bob'' ?s)" by simp
  moreover have "room_view ?s ''bob'' = Some {''ann''}" by (simp add: room_view_def sample_room_def)
  ultimately show ?thesis by (elim result_inv_mono) (auto dest!: spec [of _ "''ann''"])
qed

end
