(* ===== verification/Sessions.thy ===== *)
theory Sessions
  imports Lifecycle
begin

section \<open>Connections as wholes, and their interleaving (src/server.cpp)\<close>

text \<open>
  The level of bytes: connections arrive, chunks of bytes of different clients arrive in any
  order, connections end. Each client's thread has its own \<open>received_data\<close>. The lemmas reduce
  this level to the steps of Lifecycle, in which a whole line is one step, so that what holds
  of reachable states holds for every interleaving of the bytes.
\<close>

subsection \<open>Cutting a stream\<close>

text \<open>The finished lines of a text, and the unfinished one behind them.\<close>

primrec cut :: "string \<Rightarrow> string list \<times> string" where
  "cut [] = ([], [])"
| "cut (c # s) =
     (case cut s of
        (ls, r) \<Rightarrow>
          if c = newline then ([] # ls, r)
          else (case ls of [] \<Rightarrow> ([], c # r) | l # ls' \<Rightarrow> ((c # l) # ls', r)))"

lemma cut_joins: "s = unlines (fst (cut s)) @ snd (cut s)"
  by (induction s) (auto split: prod.splits list.splits)

lemma cut_clean: "newline \<notin> set (snd (cut s)) \<and> (\<forall>l \<in> set (fst (cut s)). newline \<notin> set l)"
  by (induction s) (auto split: prod.splits list.splits)

lemma cut_unlines: "(\<And>l. l \<in> set ls \<Longrightarrow> newline \<notin> set l) \<Longrightarrow> newline \<notin> set r \<Longrightarrow> cut (unlines ls @ r) = (ls, r)"
proof (induction ls)
  case Nil
  then have "newline \<notin> set r" by simp
  then show ?case by (induction r) auto
next
  case (Cons l ls)
  have "newline \<notin> set l \<Longrightarrow> cut (l @ newline # unlines ls @ r) = (l # ls, r)" for l
    using Cons by (induction l) auto
  then show ?case using Cons.prems by simp
qed

lemma drain_cut:
  "drain handle data s =
     (case run_lines handle (fst (cut data)) s of Inl e \<Rightarrow> Inl e | Inr t \<Rightarrow> Inr (snd (cut data), t))"
proof -
  have "drain handle (unlines (fst (cut data)) @ snd (cut data)) s =
      (case run_lines handle (fst (cut data)) s of Inl e \<Rightarrow> Inl e | Inr t \<Rightarrow> drain handle (snd (cut data)) t)"
    using cut_clean by (intro drain_unlines) blast
  then show ?thesis
    using cut_clean [of data] by (simp add: cut_joins [symmetric] drain_no_newline split: sum.split)
qed

subsection \<open>What every line leaves in place\<close>

text \<open>A property of results that holds for every line, from the commands that need a look.\<close>

lemma line_result_inv:
  assumes "newline \<notin> set l" and "\<And>r. settled_result s r \<Longrightarrow> result_inv P r"
    and "\<And>c iss. result_inv P (handle_login e fd iss s)" and "\<And>c iss. result_inv P (handle_register e fd iss s)"
    and "\<And>c iss. P (handle_nick fd c iss s)" and "\<And>c. result_inv P (handle_quit self fd c s)"
    and "\<And>c iss. result_inv P (handle_kick self fd c iss s)"
  shows "result_inv P (handle_line e self fd l s)"
proof (cases "take 1 l = ''/'' \<and> fst (read_word l) \<in> account_commands \<union> leaving_commands")
  case True
  obtain cmd iss where r: "read_word l = (cmd, iss)" by fastforce
  note dispatch = account_dispatch [OF r, of e self fd _ s]
  have cmd: "result_inv P (handle_command e self fd l c s)" for c
  proof -
    from True r consider "cmd \<in> account_commands" | "cmd \<in> leaving_commands" by auto
    then show ?thesis
    proof cases
      case 1
      then show ?thesis
        by (cases rule: account_commandsE) (simp_all only: dispatch result_inv_simps assms(3-5))
    next
      case 2
      then show ?thesis by (cases rule: leaving_commandsE) (simp_all only: dispatch assms(6,7))
    qed
  qed
  have "result_inv P (Inr s)" by (rule assms(2)) simp
  with cmd True show ?thesis by (simp add: handle_line_def split: option.split)
next
  case False
  then show ?thesis using settled_line [of l s e self fd] assms(1) by (intro assms(2)) auto
qed

text \<open>The server keeps running, and the thread of the client stays filed under its descriptor.\<close>

definition thread_kept :: "int \<Rightarrow> nat \<Rightarrow> server \<Rightarrow> bool" where
  "thread_kept fd self s \<longleftrightarrow> running s \<and> map_of (client_threads s) fd = Some self"

lemma thread_kept_frame:
  "thread_kept fd self (s\<lparr>trace := t\<rparr>) = thread_kept fd self s"
  "thread_kept fd self (s\<lparr>users := us\<rparr>) = thread_kept fd self s"
  "thread_kept fd self (s\<lparr>disk := d\<rparr>) = thread_kept fd self s"
  "thread_kept fd self (login_block k name s) = thread_kept fd self s"
  "thread_kept fd self (nick_block k name s) = thread_kept fd self s"
  "thread_kept fd self (remove_member rn n s) = thread_kept fd self s"
  "thread_kept fd self (modify_client k f s) = thread_kept fd self s"
  by (cases "map_of (clients s) k"; cases "map_of (rooms s) rn";
      simp add: thread_kept_def block_absent login_block_eq nick_block_eq remove_member_def modify_client_def Let_def)+

lemma thread_kept_remove:
  assumes "thread_kept fd self s"
  shows "result_inv (thread_kept fd self) (removeClient self k s)"
  using assms
  by (cases "map_of (clients s) k"; cases "map_of (client_threads s) k"; cases "k = fd")
     (auto simp: removeClient_def Let_def forget_client_def emit_def disconnect_event_def thread_kept_def)

lemma thread_kept_line:
  assumes "thread_kept fd self s" and "newline \<notin> set l"
  shows "result_inv (thread_kept fd self) (handle_line e self fd l s)"
proof (rule line_result_inv [OF assms(2)])
  show "result_inv (thread_kept fd self) r" if "settled_result s r" for r
    using that assms(1) unfolding settled_result_def
    by (elim result_inv_mono) (auto simp: thread_kept_def dest: settledD)
next
  fix iss
  have "thread_kept fd self t" if "login_check e fd n p s = Inr (b, t)" for n p b t
    using that assms(1) by (auto simp: login_check_def thread_kept_frame sendToSocket_eq
        split: option.splits if_splits sum.splits)
  then show "result_inv (thread_kept fd self) (handle_login e fd iss s)"
    using assms(1)
    by (auto simp: handle_login_def Let_def login_finish_def primitive_eqs(1,2) try_call_def thread_kept_frame
        split: prod.split sum.split)
  show "result_inv (thread_kept fd self) (handle_register e fd iss s)"
    using assms(1)
    by (auto simp: handle_register_def Let_def primitive_eqs(1,2) try_call_def saveUsers_def thread_kept_frame
        split: prod.split sum.split)
  show "thread_kept fd self (handle_nick fd c iss s)" for c
    using assms(1) by (simp add: handle_nick_def Let_def primitive_eqs(1,2) thread_kept_frame)
  show "result_inv (thread_kept fd self) (handle_quit self fd c s)" for c
    using assms(1) thread_kept_remove
    by (simp add: handle_quit_def Let_def primitive_eqs(1,2) thread_kept_frame)
  show "result_inv (thread_kept fd self) (handle_kick self fd c iss s)" for c
    using assms(1) thread_kept_remove
    by (simp add: handle_kick_def closeClientSocket_def Let_def primitive_eqs(1,2) thread_kept_frame
        split: prod.split option.split)
qed

subsection \<open>Runs of lines\<close>

text \<open>The states the server passes through while one client's lines are handled.\<close>

lemma steps_trans: "steps s t \<Longrightarrow> steps t u \<Longrightarrow> steps s u"
  by (rotate_tac, induction rule: steps.induct) (auto intro: steps.intros)

text \<open>
  What a run of steps makes of an outcome: a state that is reached, or an abort at which a
  last step ends.
\<close>

definition outcome :: "server \<Rightarrow> (abort \<times> server) + 'a \<Rightarrow> ('a \<Rightarrow> server) \<Rightarrow> bool" where
  "outcome s r state =
     (case r of
        Inl x \<Rightarrow> \<exists>u. steps s u \<and> server_step u (Inl x)
      | Inr a \<Rightarrow> steps s (state a))"

lemma outcome_simps [simp]:
  "outcome s (Inr a) state = steps s (state a)"
  "outcome s (Inl x) state = (\<exists>u. steps s u \<and> server_step u (Inl x))"
  by (simp_all add: outcome_def)

lemma outcome_after: "steps s t \<Longrightarrow> outcome t r state \<Longrightarrow> outcome s r state"
  by (auto simp: outcome_def dest: steps_trans split: sum.splits)

lemma outcome_step: "server_step s r \<Longrightarrow> outcome s r id"
  by (auto simp: outcome_def intro: steps.intros split: sum.splits)

lemma lines_outcome:
  assumes "thread_kept fd self s" and "list_all (\<lambda>l. newline \<notin> set l) ls"
  shows "outcome s (run_lines (handle_next envs self fd) ls (k, s)) snd"
    and "run_lines (handle_next envs self fd) ls (k, s) = Inr (k', t) \<Longrightarrow> thread_kept fd self t"
proof -
  have "outcome s (run_lines (handle_next envs self fd) ls (k, s)) snd
      \<and> (\<forall>k' t. run_lines (handle_next envs self fd) ls (k, s) = Inr (k', t) \<longrightarrow> thread_kept fd self t)"
    using assms
  proof (induction ls arbitrary: k s)
    case (Cons l ls)
    show ?case
    proof (cases "l = []")
      case False
      have nl: "newline \<notin> set l" and rest: "list_all (\<lambda>l. newline \<notin> set l) ls" using Cons.prems(2) by simp_all
      have step: "server_step s (handle_line (envs k) self fd l s)"
        using Cons.prems(1) False nl by (intro server_step.line) (simp_all add: thread_kept_def)
      show ?thesis
      proof (cases "handle_line (envs k) self fd l s")
        case (Inl x)
        then show ?thesis using False step steps.steps_none by (auto simp: handle_next_def)
      next
        case (Inr t)
        then have "thread_kept fd self t" using thread_kept_line [OF Cons.prems(1) nl, of "envs k"] by simp
        moreover have "steps s t" using step Inr by (auto intro: steps.intros)
        ultimately show ?thesis
          using Cons.IH [OF _ rest, of t "k + 1"] False Inr
          by (auto simp: handle_next_def intro: outcome_after)
      qed
    qed (use Cons in auto)
  qed (simp add: steps.steps_none)
  then show "outcome s (run_lines (handle_next envs self fd) ls (k, s)) snd"
    and "run_lines (handle_next envs self fd) ls (k, s) = Inr (k', t) \<Longrightarrow> thread_kept fd self t"
    by blast+
qed

lemma cut_list_all: "list_all (\<lambda>l. newline \<notin> set l) (fst (cut s))"
  using cut_clean by (simp add: list_all_iff)

subsection \<open>The system\<close>

text \<open>
  What arrives from the network: a connection on a descriptor the kernel hands out, bytes of
  a client, the end of a client's stream. \<open>buffers\<close> are the \<open>received_data\<close> of the threads;
  \<open>handled\<close> numbers the lines and connections, each of which has its own clock and random
  draws.
\<close>

datatype net_event = Arrives int string nat | Bytes int string | Hangup int

record system =
  buffers :: "int \<Rightarrow> string"
  handled :: nat
  sys :: server

definition arrive :: "(nat \<Rightarrow> env) \<Rightarrow> int \<Rightarrow> string \<Rightarrow> nat \<Rightarrow> system \<Rightarrow> (abort \<times> server) + system" where
  "arrive envs fd ip prt w =
     (if \<not> running (sys w) \<or> fd < 0 \<or> map_of (clients (sys w)) fd \<noteq> None then Inr w
      else case accept_client (envs (handled w)) fd ip prt (sys w) of
             Inl a \<Rightarrow> Inl a
           | Inr s \<Rightarrow> Inr (w\<lparr>buffers := (buffers w)(fd := []), handled := handled w + 1, sys := s\<rparr>))"

definition arrive_bytes :: "(nat \<Rightarrow> env) \<Rightarrow> int \<Rightarrow> string \<Rightarrow> system \<Rightarrow> (abort \<times> server) + system" where
  "arrive_bytes envs fd chunk w =
     (case map_of (client_threads (sys w)) fd of
        None \<Rightarrow> Inr w
      | Some self \<Rightarrow>
          if \<not> running (sys w) then Inr w
          else case handle_input envs self fd chunk (buffers w fd, handled w, sys w) of
                 Inl a \<Rightarrow> Inl a
               | Inr (buf, k, s) \<Rightarrow> Inr (w\<lparr>buffers := (buffers w)(fd := buf), handled := k, sys := s\<rparr>))"

definition hang_up :: "int \<Rightarrow> system \<Rightarrow> (abort \<times> server) + system" where
  "hang_up fd w =
     (case map_of (client_threads (sys w)) fd of
        None \<Rightarrow> Inr w
      | Some self \<Rightarrow>
          (case removeClient self fd (sys w) of
             Inl a \<Rightarrow> Inl a
           | Inr s \<Rightarrow> Inr (w\<lparr>sys := s\<rparr>)))"

fun net_step :: "(nat \<Rightarrow> env) \<Rightarrow> net_event \<Rightarrow> system \<Rightarrow> (abort \<times> server) + system" where
  "net_step envs (Arrives fd ip prt) w = arrive envs fd ip prt w"
| "net_step envs (Bytes fd chunk) w = arrive_bytes envs fd chunk w"
| "net_step envs (Hangup fd) w = hang_up fd w"

fun serve :: "(nat \<Rightarrow> env) \<Rightarrow> net_event list \<Rightarrow> system \<Rightarrow> (abort \<times> server) + system" where
  "serve envs [] w = Inr w"
| "serve envs (ev # evs) w = (case net_step envs ev w of Inl a \<Rightarrow> Inl a | Inr w1 \<Rightarrow> serve envs evs w1)"

lemma handle_input_cut:
  "handle_input envs self fd chunk (buf, k, s) =
     (case run_lines (handle_next envs self fd) (fst (cut (buf @ c_string chunk))) (k, s) of
        Inl a \<Rightarrow> Inl a
      | Inr t \<Rightarrow> Inr (snd (cut (buf @ c_string chunk)), t))"
  by (simp add: handle_input_def receive_chunk_def drain_cut)

lemma net_step_outcome: "outcome (sys w) (net_step envs ev w) sys"
proof (cases ev)
  case (Arrives fd ip prt)
  show ?thesis
  proof (cases "\<not> running (sys w) \<or> fd < 0 \<or> map_of (clients (sys w)) fd \<noteq> None")
    case False
    then have "outcome (sys w) (accept_client (envs (handled w)) fd ip prt (sys w)) id"
      by (intro outcome_step server_step.accept) simp_all
    then show ?thesis using Arrives False
      by (auto simp: arrive_def split: sum.splits)
  qed (auto simp: Arrives arrive_def steps.steps_none)
next
  case (Bytes fd chunk)
  show ?thesis
  proof (cases "running (sys w) \<and> map_of (client_threads (sys w)) fd \<noteq> None")
    case True
    then obtain self where "thread_kept fd self (sys w)" "map_of (client_threads (sys w)) fd = Some self"
      by (auto simp: thread_kept_def)
    then show ?thesis
      using lines_outcome(1) [OF _ cut_list_all, of fd self "sys w" envs "buffers w fd @ c_string chunk" "handled w"] True Bytes
      by (auto simp: arrive_bytes_def handle_input_cut outcome_def split: sum.splits prod.splits)
  qed (auto simp: Bytes arrive_bytes_def steps.steps_none split: option.split)
next
  case (Hangup fd)
  show ?thesis
  proof (cases "map_of (client_threads (sys w)) fd")
    case (Some self)
    then have "outcome (sys w) (removeClient self fd (sys w)) id"
      by (intro outcome_step server_step.disconnect)
    then show ?thesis using Hangup Some
      by (auto simp: hang_up_def split: sum.splits)
  qed (simp add: Hangup hang_up_def steps.steps_none)
qed

lemma serve_outcome: "outcome (sys w) (serve envs evs w) sys"
proof (induction evs arbitrary: w)
  case (Cons ev evs)
  show ?case
  proof (cases "net_step envs ev w")
    case (Inr w1)
    then show ?thesis using net_step_outcome [of w envs ev] Cons.IH [of w1] by (simp add: outcome_after)
  qed (use net_step_outcome [of w envs ev] in simp)
qed (simp add: steps.steps_none)

subsection \<open>One connection from its first byte to its end\<close>

lemma cut_append: "cut (a @ b) = (fst (cut a) @ fst (cut (snd (cut a) @ b)), snd (cut (snd (cut a) @ b)))"
proof -
  have "a @ b = unlines (fst (cut a)) @ unlines (fst (cut (snd (cut a) @ b))) @ snd (cut (snd (cut a) @ b))"
    by (metis append_assoc cut_joins)
  then have "a @ b = unlines (fst (cut a) @ fst (cut (snd (cut a) @ b))) @ snd (cut (snd (cut a) @ b))"
    by simp
  moreover have "cut (unlines (fst (cut a) @ fst (cut (snd (cut a) @ b))) @ snd (cut (snd (cut a) @ b))) =
      (fst (cut a) @ fst (cut (snd (cut a) @ b)), snd (cut (snd (cut a) @ b)))"
    using cut_clean by (intro cut_unlines) auto
  ultimately show ?thesis by simp
qed

lemma run_lines_append:
  "run_lines handle (ls @ ms) s =
     (case run_lines handle ls s of Inl e \<Rightarrow> Inl e | Inr t \<Rightarrow> run_lines handle ms t)"
  by (induction ls arbitrary: s) (auto split: sum.split)

text \<open>The end of the stream, as the client's own thread meets it.\<close>

definition connection_end :: "int \<Rightarrow> server \<Rightarrow> result" where
  "connection_end fd s = Inl (Self_join, emit (Close fd) (snd (forget_client fd s)))"

lemma handle_end:
  assumes "thread_kept fd self s"
  shows "handleClient envs self fd [None] (buf, k, s) = connection_end fd s"
proof -
  obtain n t where f: "forget_client fd s = (n, t)" by fastforce
  then have "client_threads t = client_threads s" by (auto simp: forget_client_def split: option.splits)
  then show ?thesis
    using assms f by (simp add: thread_kept_def removeClient_def connection_end_def emit_def)
qed

lemma connection_lines:
  assumes "thread_kept fd self s" and "newline \<notin> set buf"
  shows "handleClient envs self fd (map Some cs @ [None]) (buf, k, s) =
    (case run_lines (handle_next envs self fd) (fst (cut (buf @ concat (map c_string cs)))) (k, s) of
       Inl a \<Rightarrow> Inl a
     | Inr (k', t) \<Rightarrow> connection_end fd t)"
  using assms
proof (induction cs arbitrary: buf k s)
  case Nil
  then show ?case
    using cut_unlines [of "[]" buf] handle_end [OF Nil.prems(1)] by simp
next
  case (Cons c cs)
  let ?run = "run_lines (handle_next envs self fd)"
  let ?cut = "cut (buf @ c_string c)"
  have lines: "fst (cut (buf @ concat (map c_string (c # cs)))) =
      fst ?cut @ fst (cut (snd ?cut @ concat (map c_string cs)))"
    using cut_append [of "buf @ c_string c" "concat (map c_string cs)"] by simp
  show ?case
  proof (cases "?run (fst ?cut) (k, s)")
    case (Inl a)
    then show ?thesis
      using Cons.prems(1) unfolding lines run_lines_append
      by (simp add: thread_kept_def handle_input_cut)
  next
    case (Inr st)
    obtain k' t where st: "st = (k', t)" by fastforce
    have "thread_kept fd self t" by (rule lines_outcome(2) [OF Cons.prems(1) cut_list_all Inr [unfolded st]])
    moreover have "newline \<notin> set (snd ?cut)" using cut_clean by blast
    ultimately show ?thesis
      using Cons.prems(1) Cons.IH Inr st unfolding lines run_lines_append
      by (simp add: thread_kept_def handle_input_cut)
  qed
qed

subsection \<open>Properties\<close>

text \<open>C7: Whatever the order in which connections, bytes of many clients and ends of streams
  arrive, and however the bytes are cut, the server behaves as in a run of whole lines: what
  it reaches is reached by steps that handle one line, connection or end each, and when its
  threads are stopped, such a step stops them. So every invariant of reachable states holds.\<close>

theorem bytes_refine_lines:
  "(case serve envs evs w of
      Inl x \<Rightarrow> \<exists>u. steps (sys w) u \<and> server_step u (Inl x)
    | Inr w1 \<Rightarrow> steps (sys w) (sys w1))
   \<and> (initial (sys w) \<longrightarrow> (case serve envs evs w of Inl (a, t) \<Rightarrow> server_inv t | Inr w1 \<Rightarrow> server_inv (sys w1)))"
proof -
  have o: "outcome (sys w) (serve envs evs w) sys" by (rule serve_outcome)
  have "case serve envs evs w of Inl (a, t) \<Rightarrow> server_inv t | Inr w1 \<Rightarrow> server_inv (sys w1)"
    if i: "initial (sys w)"
  proof (cases "serve envs evs w")
    case (Inl x)
    obtain a t where x: "x = (a, t)" by fastforce
    with o Inl obtain u where "steps (sys w) u" "server_step u (Inl (a, t))" by auto
    moreover from this i have "reachable u" by (auto simp: reachable_def)
    ultimately show ?thesis using tables.P_after [of u "Inl (a, t)"] Inl x by simp
  next
    case (Inr w1)
    then have "reachable (sys w1)" using o i by (auto simp: reachable_def)
    then show ?thesis using tables.P_reachable Inr by simp
  qed
  with o show ?thesis by (auto simp: outcome_def split: sum.splits)
qed

definition sample_system :: system where
  "sample_system = \<lparr>buffers = (\<lambda>_. []), handled = 0, sys = started_server\<rparr>"

theorem bytes_refine_lines_witness:
  "case serve (\<lambda>_. sample_env) [Arrives 5 ''127.0.0.1'' 4000, Bytes 5 ''/his'', Bytes 5 (''tory'' @ [newline])] sample_system of
     Inl (a, t) \<Rightarrow> server_inv t | Inr w1 \<Rightarrow> server_inv (sys w1)"
  using bytes_refine_lines [of sample_system "\<lambda>_. sample_env"
      "[Arrives 5 ''127.0.0.1'' 4000, Bytes 5 ''/his'', Bytes 5 (''tory'' @ [newline])]"]
    started_initial
  by (simp only: sample_system_def system.simps simp_thms)

text \<open>C10: A connection from its first byte to its end: the client's thread handles the finished
  lines of the stream in their order, whatever the chunks, drops an unfinished line at the end,
  forgets the client, closes its descriptor, and then takes the program down by joining
  itself, unless a line has stopped it before.\<close>

theorem connection_as_lines:
  assumes "running s" and "map_of (client_threads s) fd = Some self"
  shows "handleClient envs self fd (map Some cs @ [None]) ([], k, s) =
    (case run_lines (handle_next envs self fd) (fst (cut (concat (map c_string cs)))) (k, s) of
       Inl a \<Rightarrow> Inl a
     | Inr (k', t) \<Rightarrow> Inl (Self_join, emit (Close fd) (snd (forget_client fd t))))"
  using connection_lines [of fd self s "[]" envs cs k] assms
  by (simp add: thread_kept_def connection_end_def split: sum.split)

theorem connection_as_lines_witness:
  "handleClient (\<lambda>_. sample_env) 0 5 (map Some [''half a line''] @ [None]) ([], 0, sample_server) =
     Inl (Self_join, emit (Close 5) (snd (forget_client 5 sample_server)))"
  using connection_as_lines [of sample_server 5 0 "\<lambda>_. sample_env" "[''half a line'']" 0]
  by (simp add: c_string_def)

end
