(* ===== verification/Timestamp.thy ===== *)
theory Timestamp
  imports Numbers "HOL-Library.Signed_Division"
begin

section \<open>utils::formatTimestamp (src/common.cpp)\<close>

text \<open>
  The time of a message as the histories show it: \<open>to_time_t\<close> (whole seconds, towards zero),
  \<open>localtime_r\<close> (the broken-down local time) and \<open>put_time\<close> with \<open>%Y-%m-%d %H:%M:%S\<close>. A time
  is in nanoseconds since 1970; the time zone of the machine is the argument \<open>zone\<close>, which
  gives the offset from UTC in seconds that is in force at a second. The calendar counts
  years and months from the epoch; the lemmas relate it to the closed formula for day numbers.
\<close>

subsection \<open>The broken-down time\<close>

record tm =
  tm_sec :: int
  tm_min :: int
  tm_hour :: int
  tm_mday :: int
  tm_mon :: int
  tm_year :: int

definition leap :: "int \<Rightarrow> bool" where
  "leap y \<longleftrightarrow> 4 dvd y \<and> (\<not> 100 dvd y \<or> 400 dvd y)"

definition year_days :: "int \<Rightarrow> int" where
  "year_days y = (if leap y then 366 else 365)"

definition month_lengths :: "int \<Rightarrow> int list" where
  "month_lengths y = [31, if leap y then 29 else 28, 31, 30, 31, 30, 31, 31, 30, 31, 30, 31]"

text \<open>From a day counted from the first of January of a year to the year and the day in it.\<close>

function civil_year :: "int \<Rightarrow> int \<Rightarrow> int \<times> int" where
  "civil_year y d =
     (if d < 0 then civil_year (y - 1) (d + year_days (y - 1))
      else if d < year_days y then (y, d)
      else civil_year (y + 1) (d - year_days y))"
  by pat_completeness auto
termination
  by (relation "measures [\<lambda>(y, d). if d < 0 then 1 else 0, \<lambda>(y, d). nat \<bar>d\<bar>]")
     (auto simp: year_days_def split: if_splits)

declare civil_year.simps [simp del]

fun civil_month :: "int list \<Rightarrow> int \<Rightarrow> int \<times> int" where
  "civil_month [] d = (0, d)"
| "civil_month (l # ls) d =
     (if d < l then (0, d) else (case civil_month ls (d - l) of (m, r) \<Rightarrow> (m + 1, r)))"

definition localtime :: "(int \<Rightarrow> int) \<Rightarrow> int \<Rightarrow> tm" where
  "localtime zone secs =
     (let t = secs + zone secs;
          (y, yday) = civil_year 1970 (t div 86400);
          (m, mday) = civil_month (month_lengths y) yday;
          s = t mod 86400
      in \<lparr>tm_sec = s mod 60, tm_min = s div 60 mod 60, tm_hour = s div 3600,
          tm_mday = mday + 1, tm_mon = m, tm_year = y - 1900\<rparr>)"

subsection \<open>The text\<close>

definition two_digits :: "int \<Rightarrow> string" where
  "two_digits n = [digit_char (nat n div 10), digit_char (nat n mod 10)]"

definition put_time :: "tm \<Rightarrow> string" where
  "put_time t =
     show_int (tm_year t + 1900) @ ''-'' @ two_digits (tm_mon t + 1) @ ''-'' @ two_digits (tm_mday t)
     @ '' '' @ two_digits (tm_hour t) @ '':'' @ two_digits (tm_min t) @ '':'' @ two_digits (tm_sec t)"

definition to_time_t :: "int \<Rightarrow> int" where
  "to_time_t timestamp = timestamp sdiv 1000000000"

definition formatTimestamp :: "(int \<Rightarrow> int) \<Rightarrow> int \<Rightarrow> string" where
  "formatTimestamp zone timestamp = put_time (localtime zone (to_time_t timestamp))"

subsection \<open>Day numbers\<close>

text \<open>The days before a year in the Gregorian calendar, in closed form.\<close>

definition days_before :: "int \<Rightarrow> int" where
  "days_before y = 365 * (y - 1) + (y - 1) div 4 - (y - 1) div 100 + (y - 1) div 400"

lemma div_step:
  assumes "0 < (k::int)"
  shows "y div k = (y - 1) div k + (if k dvd y then 1 else 0)"
proof (cases "k dvd y")
  case True
  then obtain q where y: "y = k * q" by (elim dvdE)
  have "(y - 1) div k = q - 1"
    using assms by (intro int_div_pos_eq [of _ _ _ "k - 1"]) (simp_all add: y algebra_simps)
  then show ?thesis using assms True y by simp
next
  case False
  have "0 < y mod k" using False assms pos_mod_sign [of k y] by (auto simp: dvd_eq_mod_eq_0 less_le)
  moreover have "y mod k < k" using assms by simp
  ultimately have "(y - 1) div k = y div k"
    by (intro int_div_pos_eq [of _ _ _ "y mod k - 1"]) simp_all
  then show ?thesis using False by simp
qed

lemma leap_count:
  fixes q r u y :: int
  assumes "q' = q + (if A then 1 else 0)" and "r' = r + (if B then 1 else 0)" and "u' = u + (if C then 1 else 0)"
    and "B \<Longrightarrow> A" and "C \<Longrightarrow> B"
  shows "365 * y + q' - r' + u' = 365 * (y - 1) + q - r + u + (if A \<and> (\<not> B \<or> C) then 366 else 365)"
  using assms by auto

lemma days_before_Suc: "days_before (y + 1) = days_before y + year_days y"
proof -
  have "100 dvd y \<Longrightarrow> 4 dvd y" using dvd_trans [of 4 100 y] by simp
  moreover have "400 dvd y \<Longrightarrow> 100 dvd y" using dvd_trans [of 100 400 y] by simp
  ultimately show ?thesis
    unfolding days_before_def year_days_def leap_def add_diff_cancel_right'
    by (intro leap_count div_step) simp_all
qed

lemma civil_year_correct:
  "civil_year y d = (y', d') \<Longrightarrow> days_before y' + d' = days_before y + d \<and> 0 \<le> d' \<and> d' < year_days y'"
proof (induction y d arbitrary: y' d' rule: civil_year.induct)
  case (1 y d)
  have "days_before y = days_before (y - 1) + year_days (y - 1)" using days_before_Suc [of "y - 1"] by simp
  then show ?case
    using 1 days_before_Suc [of y] civil_year.simps [of y d] by (fastforce split: if_splits)
qed

lemma civil_year_later: "0 \<le> d \<Longrightarrow> civil_year y d = (y', d') \<Longrightarrow> y \<le> y'"
proof (induction y d arbitrary: y' d' rule: civil_year.induct)
  case (1 y d)
  then show ?case using civil_year.simps [of y d] by (fastforce split: if_splits)
qed

lemma civil_month_correct:
  "civil_month ls d = (m, r) \<Longrightarrow> 0 \<le> d \<Longrightarrow> d < sum_list ls \<Longrightarrow>
     0 \<le> m \<and> nat m < length ls \<and> 0 \<le> r \<and> r < ls ! nat m \<and> sum_list (take (nat m) ls) + r = d"
proof (induction ls arbitrary: d m r)
  case (Cons l ls)
  show ?case
  proof (cases "d < l")
    case False
    obtain m' r' where m': "civil_month ls (d - l) = (m', r')" by fastforce
    then have "m = m' + 1" "r = r'" using Cons.prems(1) False by simp_all
    moreover have "0 \<le> m' \<and> nat m' < length ls \<and> 0 \<le> r' \<and> r' < ls ! nat m' \<and> sum_list (take (nat m') ls) + r' = d - l"
      using Cons.IH [OF m'] Cons.prems(2,3) False by simp
    ultimately show ?thesis by (simp add: nat_add_distrib)
  qed (use Cons.prems in auto)
qed simp

lemma month_lengths_sum: "sum_list (month_lengths y) = year_days y" "length (month_lengths y) = 12"
  by (simp_all add: month_lengths_def year_days_def)

lemma month_lengths_bound: "nat m < 12 \<Longrightarrow> month_lengths y ! nat m \<le> 31"
proof -
  assume "nat m < 12"
  then have "month_lengths y ! nat m \<in> set (month_lengths y)" by (simp add: month_lengths_sum)
  then show ?thesis by (auto simp: month_lengths_def split: if_splits)
qed

text \<open>A broken-down time within the ranges of its fields, and the second it stands for.\<close>

definition tm_valid :: "tm \<Rightarrow> bool" where
  "tm_valid t \<longleftrightarrow> 0 \<le> tm_sec t \<and> tm_sec t < 60 \<and> 0 \<le> tm_min t \<and> tm_min t < 60 \<and> 0 \<le> tm_hour t \<and> tm_hour t < 24
     \<and> 0 \<le> tm_mon t \<and> tm_mon t < 12
     \<and> 1 \<le> tm_mday t \<and> tm_mday t \<le> month_lengths (tm_year t + 1900) ! nat (tm_mon t)"

definition tm_day :: "tm \<Rightarrow> int" where
  "tm_day t = days_before (tm_year t + 1900)
     + sum_list (take (nat (tm_mon t)) (month_lengths (tm_year t + 1900))) + tm_mday t - 1"

definition tm_seconds :: "tm \<Rightarrow> int" where
  "tm_seconds t = (tm_day t - days_before 1970) * 86400 + tm_hour t * 3600 + tm_min t * 60 + tm_sec t"

lemma localtime_correct:
  "tm_valid (localtime zone secs) \<and> tm_seconds (localtime zone secs) = secs + zone secs
     \<and> (0 \<le> secs + zone secs \<longrightarrow> 1970 \<le> tm_year (localtime zone secs) + 1900)"
proof -
  define t where "t = secs + zone secs"
  obtain y yday where y: "civil_year 1970 (t div 86400) = (y, yday)" by fastforce
  obtain m mday where m: "civil_month (month_lengths y) yday = (m, mday)" by fastforce
  note yc = civil_year_correct [OF y]
  then have mc: "0 \<le> m \<and> nat m < 12 \<and> 0 \<le> mday \<and> mday < month_lengths y ! nat m
      \<and> sum_list (take (nat m) (month_lengths y)) + mday = yday"
    using civil_month_correct [OF m] by (simp add: month_lengths_sum)
  have lt: "localtime zone secs = \<lparr>tm_sec = t mod 86400 mod 60, tm_min = t mod 86400 div 60 mod 60,
      tm_hour = t mod 86400 div 3600, tm_mday = mday + 1, tm_mon = m, tm_year = y - 1900\<rparr>"
    by (simp add: localtime_def Let_def y m t_def [symmetric])
  have s: "0 \<le> t mod 86400" "t mod 86400 < 86400" by simp_all
  define s where "s = t mod 86400"
  have split: "s div 3600 * 3600 + s div 60 mod 60 * 60 + s mod 60 = s"
  proof -
    have "s div 3600 = s div 60 div 60" using zdiv_zmult2_eq [of 60 s 60] by simp
    then show ?thesis using div_mult_mod_eq [of "s div 60" 60] div_mult_mod_eq [of s 60] by linarith
  qed
  have "s div 3600 < 24" "0 \<le> s div 3600" using s by (simp_all add: s_def div_less_iff_less_mult)
  then have "tm_valid (localtime zone secs)"
    using mc by (auto simp: tm_valid_def lt s_def)
  moreover have "tm_seconds (localtime zone secs) = t div 86400 * 86400
      + (s div 3600 * 3600 + s div 60 mod 60 * 60 + s mod 60)"
    using yc mc by (simp add: tm_seconds_def tm_day_def lt s_def)
  then have "tm_seconds (localtime zone secs) = t" unfolding split by (simp add: s_def)
  moreover have "0 \<le> t \<Longrightarrow> 1970 \<le> y" using civil_year_later [OF _ y] by simp
  ultimately show ?thesis by (simp add: lt t_def)
qed

subsection \<open>The text determines the time\<close>

lemma cut_at:
  assumes "a @ c # r = b @ c # s" and "c \<notin> set a" and "c \<notin> set b"
  shows "a = b \<and> r = s"
proof -
  have first: "takeWhile (\<lambda>x. x \<noteq> c) (u @ c # v) = u" if "c \<notin> set u" for u v
    using that by (induction u) auto
  have "a = b" using first [OF assms(2), of r] first [OF assms(3), of s] unfolding assms(1) by simp
  then show ?thesis using assms(1) by simp
qed

lemma show_nat_inj: "show_nat m = show_nat n \<longleftrightarrow> m = n"
  by (metis digits_value_show_nat)

lemma show_nat_no_minus: "CHR ''-'' \<notin> set (show_nat n)"
proof
  assume "CHR ''-'' \<in> set (show_nat n)"
  then obtain d where "d < 10" "CHR ''-'' = digit_char d" using show_nat_digits by blast
  then show False using digit_char_props(3) [of d] by simp
qed

lemma two_digits_inj:
  assumes "two_digits m = two_digits n" and "0 \<le> m" and "m < 100" and "0 \<le> n" and "n < 100"
  shows "m = n"
proof -
  have "nat m div 10 < 16" "nat n div 10 < 16" "nat m mod 10 < 16" "nat n mod 10 < 16"
    using assms by (simp_all add: div_less_iff_less_mult less_imp_le_nat order_less_trans [of _ 10])
  then have "nat m div 10 = nat n div 10" "nat m mod 10 = nat n mod 10"
    using assms(1) by (simp_all add: two_digits_def digit_char_inj)
  then have "nat m = nat n" by (metis div_mult_mod_eq)
  then show ?thesis using assms(2,4) by simp
qed

lemma two_digits_append:
  "two_digits m @ xs = two_digits n @ ys \<longleftrightarrow> two_digits m = two_digits n \<and> xs = ys"
  by (simp add: two_digits_def)

lemma put_time_fields:
  assumes eq: "put_time t = put_time u" and y: "0 \<le> tm_year t + 1900" "0 \<le> tm_year u + 1900"
  shows "show_int (tm_year t + 1900) = show_int (tm_year u + 1900)"
    and "two_digits (tm_mon t + 1) = two_digits (tm_mon u + 1)" and "two_digits (tm_mday t) = two_digits (tm_mday u)"
    and "two_digits (tm_hour t) = two_digits (tm_hour u)" and "two_digits (tm_min t) = two_digits (tm_min u)"
    and "two_digits (tm_sec t) = two_digits (tm_sec u)"
proof -
  define rest :: "tm \<Rightarrow> string" where "rest v = two_digits (tm_mon v + 1) @ ''-'' @ two_digits (tm_mday v)
     @ '' '' @ two_digits (tm_hour v) @ '':'' @ two_digits (tm_min v) @ '':'' @ two_digits (tm_sec v)" for v
  have put: "put_time v = show_int (tm_year v + 1900) @ CHR ''-'' # rest v" for v
    by (simp add: put_time_def rest_def)
  have no_minus: "CHR ''-'' \<notin> set (show_int n)" if "0 \<le> n" for n
    using that by (simp add: show_int_def show_nat_no_minus)
  have both: "show_int (tm_year t + 1900) = show_int (tm_year u + 1900) \<and> rest t = rest u"
    using cut_at [OF eq [unfolded put] no_minus [OF y(1)] no_minus [OF y(2)]] .
  then show "show_int (tm_year t + 1900) = show_int (tm_year u + 1900)" ..
  have "rest t = rest u" using both ..
  then show "two_digits (tm_mon t + 1) = two_digits (tm_mon u + 1)" and "two_digits (tm_mday t) = two_digits (tm_mday u)"
    and "two_digits (tm_hour t) = two_digits (tm_hour u)" and "two_digits (tm_min t) = two_digits (tm_min u)"
    and "two_digits (tm_sec t) = two_digits (tm_sec u)"
    by (simp_all add: rest_def two_digits_append)
qed

lemma tm_valid_two_digits:
  assumes "tm_valid v"
  shows "0 \<le> tm_mon v + 1" and "tm_mon v + 1 < 100" and "0 \<le> tm_mday v" and "tm_mday v < 100"
    and "0 \<le> tm_hour v" and "tm_hour v < 100" and "0 \<le> tm_min v" and "tm_min v < 100"
    and "0 \<le> tm_sec v" and "tm_sec v < 100"
  using assms month_lengths_bound [of "tm_mon v" "tm_year v + 1900"] by (force simp: tm_valid_def)+

lemma put_time_inj:
  assumes eq: "put_time t = put_time u" and v: "tm_valid t" "tm_valid u"
    and y: "0 \<le> tm_year t + 1900" "0 \<le> tm_year u + 1900"
  shows "tm_seconds t = tm_seconds u"
proof -
  note same = put_time_fields [OF eq y]
  note range = tm_valid_two_digits [OF v(1)] tm_valid_two_digits [OF v(2)]
  have "tm_mon t = tm_mon u" using two_digits_inj [OF same(2)] range by simp
  moreover have "tm_mday t = tm_mday u" using two_digits_inj [OF same(3)] range by simp
  moreover have "tm_hour t = tm_hour u" using two_digits_inj [OF same(4)] range by simp
  moreover have "tm_min t = tm_min u" using two_digits_inj [OF same(5)] range by simp
  moreover have "tm_sec t = tm_sec u" using two_digits_inj [OF same(6)] range by simp
  moreover have "tm_year t = tm_year u"
    using same(1) y show_nat_inj [of "nat (tm_year t + 1900)" "nat (tm_year u + 1900)"] by (simp add: show_int_def)
  ultimately show ?thesis by (simp add: tm_seconds_def tm_day_def)
qed

subsection \<open>Properties\<close>



end
