(* ===== verification/Accepting.thy ===== *)
theory Accepting
  imports Lifecycle
begin

section \<open>The accept loop (src/server.cpp, acceptConnections)\<close>

text \<open>
  What a run of the accept loop over any number of connections leaves behind, and what a
  failing \<open>accept\<close> does to the loop.
\<close>

subsection \<open>One connection\<close>

text \<open>The record that a new connection gets, and what it is sent.\<close>

definition guest :: "env \<Rightarrow> int \<Rightarrow> string \<Rightarrow> nat \<Rightarrow> client_info" where
  "guest e fd ip prt = new_client\<lparr>socket_fd := fd, ci_name := guest_name fd, ip_address := ip,
     port := prt, connect_time := clock e, is_logged_in := False\<rparr>"

definition greeting :: "bool \<Rightarrow> int \<Rightarrow> event list" where
  "greeting callback fd = Send fd encodeWelcome # (if callback then [Connect_cb fd (guest_name fd)] else [])"

lemma accept_client_eq:
  assumes "map_of (clients s) fd = None" and "map_of (client_threads s) fd = None"
  shows "accept_client e fd ip prt s = Inr (s\<lparr>clients := clients s @ [(fd, guest e fd ip prt)],
     client_threads := client_threads s @ [(fd, next_thread s)], next_thread := next_thread s + 1,
     trace := trace s @ greeting (connect_callback s) fd\<rparr>)"
  using assms
  by (simp add: accept_client_def Let_def update_absent guest_def greeting_def sendToSocket_eq emit_def)

subsection \<open>Many connections\<close>

text \<open>A connection as the loop meets it: the environment, the descriptor, address and port.\<close>

type_synonym connection = "env \<times> int \<times> string \<times> nat"

definition accepted :: "connection \<Rightarrow> env \<times> accept_result" where
  "accepted con = (case con of (e, fd, ip, prt) \<Rightarrow> (e, Accepted fd ip prt))"

definition con_fd :: "connection \<Rightarrow> int" where
  "con_fd con = fst (snd con)"

definition con_guest :: "connection \<Rightarrow> client_info" where
  "con_guest con = (case con of (e, fd, ip, prt) \<Rightarrow> guest e fd ip prt)"

lemma con_simps [simp]:
  "accepted (e, fd, ip, prt) = (e, Accepted fd ip prt)" "con_fd (e, fd, ip, prt) = fd"
  "con_guest (e, fd, ip, prt) = guest e fd ip prt"
  by (simp_all add: accepted_def con_fd_def con_guest_def)

definition unused :: "server \<Rightarrow> int \<Rightarrow> bool" where
  "unused s fd \<longleftrightarrow> map_of (clients s) fd = None \<and> map_of (client_threads s) fd = None"

lemma accept_many:
  assumes "running s" and "distinct (map con_fd cons)" and "\<And>con. con \<in> set cons \<Longrightarrow> unused s (con_fd con)"
  shows "acceptConnections (map accepted cons @ rest) s = acceptConnections rest (s\<lparr>
     clients := clients s @ map (\<lambda>con. (con_fd con, con_guest con)) cons,
     client_threads := client_threads s @ zip (map con_fd cons) [next_thread s..<next_thread s + length cons],
     next_thread := next_thread s + length cons,
     trace := trace s @ concat (map (\<lambda>con. greeting (connect_callback s) (con_fd con)) cons)\<rparr>)"
  using assms
proof (induction cons arbitrary: s)
  case (Cons con cons)
  obtain e fd ip prt where con: "con = (e, fd, ip, prt)" by (cases con) auto
  define t where "t = s\<lparr>clients := clients s @ [(fd, guest e fd ip prt)],
     client_threads := client_threads s @ [(fd, next_thread s)], next_thread := next_thread s + 1,
     trace := trace s @ greeting (connect_callback s) fd\<rparr>"
  have "unused s fd" using Cons.prems(3) [of con] by (simp add: con)
  then have "accept_client e fd ip prt s = Inr t"
    using accept_client_eq by (simp add: unused_def t_def)
  then have "acceptConnections (map accepted (con # cons) @ rest) s = acceptConnections (map accepted cons @ rest) t"
    using Cons.prems(1) by (simp add: con)
  moreover have "unused t (con_fd c)" if "c \<in> set cons" for c
    using that Cons.prems(2) Cons.prems(3) [of c] by (auto simp: con t_def unused_def)
  moreover have "running t" using Cons.prems(1) by (simp add: t_def)
  ultimately show ?case
    using Cons.IH [of t] Cons.prems(2) by (simp add: con t_def upt_conv_Cons del: upt_Suc)
qed simp

subsection \<open>Properties\<close>

text \<open>C11: Every connection is taken in: connections on descriptors that are not in use become
  clients in their order, each a guest that is not logged in and has no registered name, each
  with a thread of its own, and each is sent the welcome, followed by the callback if there is
  one; nothing else changes.\<close>

theorem accept_takes_in:
  assumes "running s" and "distinct (map con_fd cons)"
    and "list_all (\<lambda>con. map_of (clients s) (con_fd con) = None \<and> map_of (client_threads s) (con_fd con) = None) cons"
  shows "acceptConnections (map accepted cons) s = Inr (s\<lparr>
     clients := clients s @ map (\<lambda>con. (con_fd con, con_guest con)) cons,
     client_threads := client_threads s @ zip (map con_fd cons) [next_thread s..<next_thread s + length cons],
     next_thread := next_thread s + length cons,
     trace := trace s @ concat (map (\<lambda>con. greeting (connect_callback s) (con_fd con)) cons)\<rparr>)"
  using accept_many [OF assms(1,2), of "[]"] assms(3) by (simp add: list_all_iff unused_def)

theorem accept_takes_in_witness:
  "\<exists>t. acceptConnections (map accepted [(sample_env, 7, ''10.0.0.1'', 4001), (sample_env, 8, ''10.0.0.2'', 4002)])
        sample_server = Inr t
     \<and> client_threads t = [(5, 0), (6, 1), (7, 2), (8, 3)] \<and> next_thread t = 4"
  using accept_takes_in [of sample_server "[(sample_env, 7, ''10.0.0.1'', 4001), (sample_env, 8, ''10.0.0.2'', 4002)]"]
  by (simp add: eval_nat_numeral)

text \<open>One failing \<open>accept\<close> is the end of accepting: an error other than "would block", such as
  an aborted connection or a lack of descriptors, leaves the loop, and the server goes on
  running without ever taking in a further connection.\<close>

theorem accept_failure_is_final:
  assumes "running s" and "distinct (map con_fd cons)"
    and "list_all (\<lambda>con. map_of (clients s) (con_fd con) = None \<and> map_of (client_threads s) (con_fd con) = None) cons"
  shows "\<exists>t. acceptConnections (map accepted cons @ (e, Accept_failed) # later) s = Inr t \<and> running t
     \<and> map fst (clients t) = map fst (clients s) @ map con_fd cons"
  using accept_many [OF assms(1,2), of "(e, Accept_failed) # later"] assms(1,3)
  by (simp add: list_all_iff unused_def comp_def)

theorem accept_failure_is_final_witness:
  "\<exists>t. acceptConnections (map accepted [] @ (sample_env, Accept_failed) # [(sample_env, Accepted 9 ''10.0.0.3'' 1)])
         sample_server = Inr t \<and> running t \<and> map fst (clients t) = [5, 6]"
  using accept_failure_is_final [of sample_server "[]" sample_env "[(sample_env, Accepted 9 ''10.0.0.3'' 1)]"]
  by simp

end
