(* ===== verification/Tls.thy ===== *)
theory Tls
  imports Accepting
begin

section \<open>TLS (the OPENSSL_FOUND parts of src/server.cpp)\<close>

text \<open>
  What the server does with OpenSSL's objects when it is built with it: the context made by
  \<open>enableSSL\<close>, a connection object for each accepted client, and the places that free them.
  What OpenSSL answers is an argument of the operation that asks (a null pointer is \<open>None\<close>).
  Beside the members of the code, the record counts what OpenSSL has handed out and not got
  back, and the calls that free an object which is not (or no longer) in use.
\<close>

subsection \<open>State and objects\<close>

type_synonym ptr = nat

record tls =
  ssl_enabled :: bool
  ssl_ctx :: "ptr option"
  client_ssl :: "(int \<times> ptr) list"
  live_ctx :: "ptr list"
  live_ssl :: "ptr list"
  bad_frees :: nat

definition new_tls :: tls where
  "new_tls = \<lparr>ssl_enabled = False, ssl_ctx = None, client_ssl = [], live_ctx = [], live_ssl = [], bad_frees = 0\<rparr>"

definition SSL_free :: "ptr \<Rightarrow> tls \<Rightarrow> tls" where
  "SSL_free p t =
     (if p \<in> set (live_ssl t) then t\<lparr>live_ssl := removeAll p (live_ssl t)\<rparr>
      else t\<lparr>bad_frees := bad_frees t + 1\<rparr>)"

definition SSL_CTX_free :: "ptr \<Rightarrow> tls \<Rightarrow> tls" where
  "SSL_CTX_free p t =
     (if p \<in> set (live_ctx t) then t\<lparr>live_ctx := removeAll p (live_ctx t)\<rparr>
      else t\<lparr>bad_frees := bad_frees t + 1\<rparr>)"

subsection \<open>The context\<close>

text \<open>\<open>initSSL\<close>: the old value of \<open>ssl_ctx_\<close> is overwritten, whatever it was.\<close>

definition initSSL :: "ptr option \<Rightarrow> tls \<Rightarrow> bool \<times> tls" where
  "initSSL made t =
     (case made of
        None \<Rightarrow> (False, t\<lparr>ssl_ctx := None\<rparr>)
      | Some p \<Rightarrow> (True, t\<lparr>ssl_ctx := Some p, live_ctx := p # live_ctx t\<rparr>))"

text \<open>The release that the failing branches of \<open>enableSSL\<close> and \<open>cleanupSSL\<close> share.\<close>

definition drop_context :: "tls \<Rightarrow> tls" where
  "drop_context t = (case ssl_ctx t of None \<Rightarrow> t | Some p \<Rightarrow> (SSL_CTX_free p t)\<lparr>ssl_ctx := None\<rparr>)"

record enable_answers =
  ctx_made :: "ptr option"
  certificate_ret :: int
  private_key_ret :: int
  keys_match :: bool

definition enableSSL :: "enable_answers \<Rightarrow> tls \<Rightarrow> bool \<times> tls" where
  "enableSSL a t =
     (case initSSL (ctx_made a) t of
        (False, t1) \<Rightarrow> (False, t1)
      | (True, t1) \<Rightarrow>
          if certificate_ret a \<le> 0 then (False, drop_context t1)
          else if private_key_ret a \<le> 0 then (False, drop_context t1)
          else if \<not> keys_match a then (False, drop_context t1)
          else (True, t1\<lparr>ssl_enabled := True\<rparr>))"

definition isSSLEnabled :: "tls \<Rightarrow> bool" where
  "isSSLEnabled t = ssl_enabled t"

definition cleanupSSL :: "tls \<Rightarrow> tls" where
  "cleanupSSL t = (foldl (\<lambda>t (_, p). SSL_free p t) (drop_context t) (client_ssl t))\<lparr>client_ssl := []\<rparr>"

subsection \<open>A client's connection object\<close>

text \<open>The handshake of \<open>acceptConnections\<close>: \<open>False\<close> means that the socket was closed.\<close>

record handshake_answers =
  ssl_made :: "ptr option \<Rightarrow> ptr option"
  set_fd_ok :: bool
  accept_ret :: int

definition handshake :: "handshake_answers \<Rightarrow> int \<Rightarrow> tls \<Rightarrow> bool \<times> tls" where
  "handshake h fd t =
     (if \<not> ssl_enabled t then (True, t)
      else case ssl_made h (ssl_ctx t) of
        None \<Rightarrow> (False, t)
      | Some p \<Rightarrow>
          let t1 = t\<lparr>live_ssl := p # live_ssl t\<rparr>
          in if \<not> set_fd_ok h then (False, SSL_free p t1)
             else if accept_ret h \<le> 0 then (False, SSL_free p t1)
             else (True, t1\<lparr>client_ssl := AList.update fd p (client_ssl t1)\<rparr>))"

definition accept_tls ::
  "env \<Rightarrow> int \<Rightarrow> string \<Rightarrow> nat \<Rightarrow> handshake_answers \<Rightarrow> tls \<Rightarrow> server \<Rightarrow> tls \<times> result" where
  "accept_tls e fd ip prt h t s =
     (case handshake h fd t of
        (False, t1) \<Rightarrow> (t1, Inr (emit (Close fd) s))
      | (True, t1) \<Rightarrow> (t1, accept_client e fd ip prt s))"

fun acceptConnections_tls ::
  "(env \<times> handshake_answers \<times> accept_result) list \<Rightarrow> tls \<Rightarrow> server \<Rightarrow> tls \<times> result" where
  "acceptConnections_tls [] t s = (t, Inr s)"
| "acceptConnections_tls ((e, h, r) # rs) t s =
     (if \<not> running s then (t, Inr s)
      else case r of
             Accepted fd ip prt \<Rightarrow>
               (case accept_tls e fd ip prt h t s of
                  (t1, Inl a) \<Rightarrow> (t1, Inl a)
                | (t1, Inr s1) \<Rightarrow> acceptConnections_tls rs t1 s1)
           | Would_block \<Rightarrow> acceptConnections_tls rs t s
           | Accept_failed \<Rightarrow> (t, Inr s))"

text \<open>The block of \<open>removeClient\<close> and of \<open>stop\<close> that frees the object of a descriptor.\<close>

definition release :: "int \<Rightarrow> tls \<Rightarrow> tls" where
  "release fd t =
     (case map_of (client_ssl t) fd of
        None \<Rightarrow> t
      | Some p \<Rightarrow> (SSL_free p t)\<lparr>client_ssl := AList.delete fd (client_ssl t)\<rparr>)"

definition removeClient_tls :: "nat \<Rightarrow> int \<Rightarrow> tls \<Rightarrow> server \<Rightarrow> tls \<times> result" where
  "removeClient_tls self fd t s = (release fd t, removeClient self fd s)"

definition stop_tls :: "env \<Rightarrow> nat \<Rightarrow> nat list \<Rightarrow> tls \<Rightarrow> server \<Rightarrow> tls \<times> result" where
  "stop_tls e self left t s =
     (if \<not> running s then (t, Inr s)
      else (foldl (\<lambda>t (fd, _). release fd t) t (clients s), stop e self left s))"

text \<open>The destructor: \<open>stop\<close>, then \<open>cleanupSSL\<close>.\<close>

definition destroy_server :: "env \<Rightarrow> nat \<Rightarrow> nat list \<Rightarrow> tls \<Rightarrow> server \<Rightarrow> tls \<times> result" where
  "destroy_server e self left t s =
     (case stop_tls e self left t s of
        (t1, Inl a) \<Rightarrow> (t1, Inl a)
      | (t1, Inr s1) \<Rightarrow> (cleanupSSL t1, Inr s1))"

text \<open>
  How the text of a \<open>sendToSocket\<close> goes out, and the result of the call given the number
  of bytes that \<open>SSL_write\<close> or \<open>send\<close> reports.
\<close>

datatype transport = Encrypted ptr | Plain

definition transport_of :: "tls \<Rightarrow> int \<Rightarrow> transport" where
  "transport_of t fd = (case map_of (client_ssl t) fd of None \<Rightarrow> Plain | Some p \<Rightarrow> Encrypted p)"

definition sendToSocket_tls :: "(transport \<Rightarrow> string \<Rightarrow> int) \<Rightarrow> int \<Rightarrow> string \<Rightarrow> tls \<Rightarrow> bool" where
  "sendToSocket_tls sent fd message t = (sent (transport_of t fd) message = int (length message))"

text \<open>\<open>receiveFromSocket\<close>, which nothing calls: \<open>handleClient\<close> reads with \<open>recv\<close>, also under TLS.\<close>

definition receiveFromSocket :: "(transport \<Rightarrow> string option) \<Rightarrow> int \<Rightarrow> tls \<Rightarrow> string option" where
  "receiveFromSocket read fd t =
     (case read (transport_of t fd) of
        None \<Rightarrow> None
      | Some bytes \<Rightarrow> if bytes = [] then None else Some (c_string (take 4095 bytes)))"

subsection \<open>Steps\<close>

text \<open>
  A fresh object is one that OpenSSL does not hand out twice. A line or a web operation is a
  step of the server; the clients it removes are removed by \<open>removeClient\<close> (\<open>/quit\<close>,
  \<open>/kick\<close>), which releases their objects: \<open>departed\<close>.
\<close>

definition departed :: "server \<Rightarrow> server \<Rightarrow> int list" where
  "departed s s' = filter (\<lambda>fd. fd \<notin> fst ` set (clients s')) (map fst (clients s))"

definition release_all :: "int list \<Rightarrow> tls \<Rightarrow> tls" where
  "release_all fds t = foldl (\<lambda>t fd. release fd t) t fds"

inductive tls_step :: "tls \<times> server \<Rightarrow> tls \<times> result \<Rightarrow> bool" where
  enabling: "(\<And>p. ctx_made a = Some p \<Longrightarrow> p \<notin> set (live_ctx t)) \<Longrightarrow>
     tls_step (t, s) (snd (enableSSL a t), Inr s)"
| accepting: "running s \<Longrightarrow> 0 \<le> fd \<Longrightarrow> map_of (clients s) fd = None \<Longrightarrow>
     (\<And>p. ssl_made h (ssl_ctx t) = Some p \<Longrightarrow> p \<notin> set (live_ssl t)) \<Longrightarrow>
     tls_step (t, s) (accept_tls e fd ip prt h t s)"
| leaving: "tls_step (t, s) (removeClient_tls self fd t s)"
| stopping: "tls_step (t, s) (stop_tls e self left t s)"
| other: "server_step s r \<Longrightarrow> fst ` set (clients (result_state r)) \<subseteq> fst ` set (clients s) \<Longrightarrow>
     tls_step (t, s) (release_all (departed s (result_state r)) t, r)"

inductive tls_reachable :: "tls \<Rightarrow> server \<Rightarrow> bool" where
  tls_fresh: "initial s \<Longrightarrow> tls_reachable new_tls s"
| tls_more: "tls_reachable t s \<Longrightarrow> tls_step (t, s) (t', r) \<Longrightarrow> tls_reachable t' (result_state r)"

subsection \<open>Ownership\<close>

text \<open>
  Every connection object in use belongs to exactly one descriptor of a connected client,
  and nothing was freed that was not in use; a context that is pointed to is in use.
\<close>

definition owned :: "tls \<Rightarrow> bool" where
  "owned t \<longleftrightarrow> distinct (map fst (client_ssl t)) \<and> distinct (map snd (client_ssl t))
     \<and> set (map snd (client_ssl t)) = set (live_ssl t) \<and> bad_frees t = 0
     \<and> (\<forall>p. ssl_ctx t = Some p \<longrightarrow> p \<in> set (live_ctx t))"

definition tls_fds :: "tls \<Rightarrow> int set" where
  "tls_fds t = fst ` set (client_ssl t)"

lemma owned_new: "owned new_tls" "tls_fds new_tls = {}"
  by (simp_all add: owned_def tls_fds_def new_tls_def)

lemma delete_removes_value:
  assumes "distinct (map fst al)" and "distinct (map snd al)" and "map_of al k = Some v"
  shows "snd ` set (AList.delete k al) = snd ` set al - {v}"
    and "distinct (map snd (AList.delete k al))"
proof -
  have kv: "(k, v) \<in> set al" using assms(3) by (rule map_of_SomeD)
  have "x = k \<longleftrightarrow> y = v" if "(x, y) \<in> set al" for x y
  proof
    assume "x = k"
    with that show "y = v" using kv assms(1) by (metis eq_key_imp_eq_value)
  next
    assume "y = v"
    with that show "x = k"
      using kv assms(2) inj_onD [of snd "set al" "(x, v)" "(k, v)"] by (simp add: distinct_map)
  qed
  then have "z \<in> set (AList.delete k al) \<longleftrightarrow> z \<in> set al - {(k, v)}" for z
    by (cases z) (auto simp: AList.delete_eq)
  then have "set (AList.delete k al) = set al - {(k, v)}" by blast
  then show "snd ` set (AList.delete k al) = snd ` set al - {v}"
    using kv assms(2) inj_on_image_set_diff [of snd "set al" "set al" "{(k, v)}"] by (simp add: distinct_map)
  show "distinct (map snd (AList.delete k al))"
    using assms(2) by (simp add: AList.delete_eq distinct_map_filter)
qed

lemma release_owned:
  assumes "owned t"
  shows "owned (release fd t)" and "tls_fds (release fd t) = tls_fds t - {fd}"
proof -
  show "owned (release fd t)"
  proof (cases "map_of (client_ssl t) fd")
    case None
    then show ?thesis using assms by (simp add: release_def)
  next
    case (Some p)
    then have "p \<in> snd ` set (client_ssl t)" by (force dest: map_of_SomeD)
    moreover note delete_removes_value [OF _ _ Some]
    ultimately show ?thesis using Some assms by (auto simp: release_def SSL_free_def owned_def)
  qed
  show "tls_fds (release fd t) = tls_fds t - {fd}"
    by (auto simp: release_def tls_fds_def SSL_free_def AList.delete_eq map_of_eq_None_iff image_iff
        split: option.split)
qed

lemma release_all_owned:
  "owned t \<Longrightarrow> owned (release_all fds t) \<and> tls_fds (release_all fds t) = tls_fds t - set fds"
  by (induction fds arbitrary: t) (auto simp: release_all_def release_owned)

lemma stop_releases_all: "foldl (\<lambda>t (fd, _). release fd t) t cs = release_all (map fst cs) t"
  by (induction cs arbitrary: t) (auto simp: release_all_def)

lemma drop_context_owned:
  assumes "owned t"
  shows "owned (drop_context t)" and "tls_fds (drop_context t) = tls_fds t"
  using assms by (auto simp: drop_context_def SSL_CTX_free_def owned_def tls_fds_def split: option.split)

lemma enableSSL_owned:
  assumes "owned t"
  shows "owned (snd (enableSSL a t))" and "tls_fds (snd (enableSSL a t)) = tls_fds t"
proof -
  have init: "owned (snd (initSSL m t))" "tls_fds (snd (initSSL m t)) = tls_fds t" for m
    using assms by (auto simp: initSSL_def owned_def tls_fds_def split: option.split)
  have flag: "owned (u\<lparr>ssl_enabled := b\<rparr>) = owned u" "tls_fds (u\<lparr>ssl_enabled := b\<rparr>) = tls_fds u" for u b
    by (simp_all add: owned_def tls_fds_def)
  show "owned (snd (enableSSL a t))" and "tls_fds (snd (enableSSL a t)) = tls_fds t"
    using init [of "ctx_made a"] drop_context_owned
    by (auto simp: enableSSL_def flag split: prod.split bool.split)
qed

lemma handshake_owned:
  assumes "owned t" and "fd \<notin> tls_fds t" and "\<And>p. ssl_made h (ssl_ctx t) = Some p \<Longrightarrow> p \<notin> set (live_ssl t)"
  shows "owned (snd (handshake h fd t))"
    and "tls_fds (snd (handshake h fd t)) = (if fst (handshake h fd t) \<and> ssl_enabled t then insert fd (tls_fds t) else tls_fds t)"
proof -
  have absent: "map_of (client_ssl t) fd = None" using assms(2) by (simp add: tls_fds_def map_of_eq_None_iff)
  show "owned (snd (handshake h fd t))"
    using assms absent
    by (auto simp: handshake_def owned_def tls_fds_def update_absent SSL_free_def Let_def split: option.split)
  show "tls_fds (snd (handshake h fd t)) = (if fst (handshake h fd t) \<and> ssl_enabled t then insert fd (tls_fds t) else tls_fds t)"
    using assms absent
    by (auto simp: handshake_def tls_fds_def update_absent SSL_free_def Let_def split: option.split)
qed

lemma handshake_off: "\<not> ssl_enabled t \<Longrightarrow> handshake h fd t = (True, t)"
  by (simp add: handshake_def)

definition tls_inv :: "tls \<Rightarrow> server \<Rightarrow> bool" where
  "tls_inv t s \<longleftrightarrow> owned t \<and> tls_fds t \<subseteq> fst ` set (clients s)"

lemma result_state_simps [simp]: "result_state (Inl (a, s)) = s" "result_state (Inr s) = s"
  by (simp_all add: result_state_def)

lemma keys_delete: "fst ` set (AList.delete k al) = fst ` set al - {k}"
  by (metis AList.delete_keys set_map set_removeAll)

lemma clients_after:
  "fst ` set (clients (result_state (accept_client e fd ip prt s))) = insert fd (fst ` set (clients s))"
  "fst ` set (clients (result_state (removeClient self fd s))) = fst ` set (clients s) - {fd}"
  "running s \<Longrightarrow> clients (result_state (stop e self left s)) = []"
proof -
  show "fst ` set (clients (result_state (accept_client e fd ip prt s))) = insert fd (fst ` set (clients s))"
    by (simp add: accept_client_def Let_def sendToSocket_eq emit_def AList.dom_update)
  have "fst ` set (clients (snd (forget_client fd s))) = fst ` set (clients s) - {fd}"
  proof (cases "map_of (clients s) fd")
    case None
    then have "fd \<notin> fst ` set (clients s)" by (simp add: map_of_eq_None_iff)
    with None show ?thesis by (simp add: forget_client_def)
  next
    case (Some c)
    then show ?thesis by (simp add: forget_client_def keys_delete)
  qed
  moreover have "clients (result_state (removeClient self fd s)) = clients (snd (forget_client fd s))"
    by (auto simp: removeClient_def Let_def emit_def disconnect_event_def split: prod.split option.split)
  ultimately show "fst ` set (clients (result_state (removeClient self fd s))) = fst ` set (clients s) - {fd}"
    by simp
  show "running s \<Longrightarrow> clients (result_state (stop e self left s)) = []"
    by (auto simp: stop_def Let_def close_all_eq split: option.split)
qed

lemma accept_tls_inv:
  assumes "tls_inv t s" and "map_of (clients s) fd = None"
    and "\<And>p. ssl_made h (ssl_ctx t) = Some p \<Longrightarrow> p \<notin> set (live_ssl t)"
    and "accept_tls e fd ip prt h t s = (t', r)"
  shows "tls_inv t' (result_state r)"
proof -
  have absent: "fd \<notin> tls_fds t" using assms(1,2) by (auto simp: tls_inv_def map_of_eq_None_iff)
  obtain go t1 where g: "handshake h fd t = (go, t1)" by fastforce
  have "owned t1" and "tls_fds t1 = (if go \<and> ssl_enabled t then insert fd (tls_fds t) else tls_fds t)"
    using handshake_owned [of t fd h] assms(1,3) absent g by (simp_all add: tls_inv_def)
  then show ?thesis
    using assms(1,4) g by (cases go) (auto simp: tls_inv_def accept_tls_def emit_def clients_after)
qed

lemma tls_step_inv:
  assumes "tls_step (t, s) (t', r)" and "tls_inv t s"
  shows "tls_inv t' (result_state r)"
  using assms(1)
proof (cases rule: tls_step.cases)
  case (enabling a)
  then show ?thesis using assms(2) by (simp add: tls_inv_def enableSSL_owned)
next
  case (accepting fd h e ip prt)
  then show ?thesis using accept_tls_inv [of t s fd h e ip prt t' r] assms(2) by simp
next
  case (leaving self fd)
  then show ?thesis
    using assms(2) by (auto simp: tls_inv_def removeClient_tls_def clients_after release_owned)
next
  case (stopping e self left)
  then show ?thesis
    using assms(2) by (auto simp: tls_inv_def stop_tls_def clients_after stop_releases_all release_all_owned
        split: if_splits)
next
  case other
  then show ?thesis
    using assms(2) release_all_owned [of t "departed s (result_state r)"]
    by (auto simp: tls_inv_def departed_def)
qed

lemma tls_reachable_inv: "tls_reachable t s \<Longrightarrow> tls_inv t s"
proof (induction rule: tls_reachable.induct)
  case (tls_fresh s)
  then show ?case by (simp add: tls_inv_def owned_new)
next
  case (tls_more t s t' r)
  then show ?case using tls_step_inv by blast
qed

lemma cleanup_frees:
  assumes "owned t"
  shows "live_ssl (cleanupSSL t) = [] \<and> bad_frees (cleanupSSL t) = 0 \<and> ssl_ctx (cleanupSSL t) = None"
proof -
  have frees: "distinct ps \<Longrightarrow> set ps = set (live_ssl u) \<Longrightarrow> bad_frees u = 0 \<Longrightarrow> ssl_ctx u = None \<Longrightarrow>
      live_ssl (foldl (\<lambda>t p. SSL_free p t) u ps) = [] \<and> bad_frees (foldl (\<lambda>t p. SSL_free p t) u ps) = 0
      \<and> ssl_ctx (foldl (\<lambda>t p. SSL_free p t) u ps) = None" for ps u
  proof (induction ps arbitrary: u)
    case (Cons p ps)
    have "set ps = set (live_ssl (SSL_free p u))" "bad_frees (SSL_free p u) = 0" "ssl_ctx (SSL_free p u) = None"
      using Cons.prems by (auto simp: SSL_free_def)
    then show ?case using Cons by simp
  qed simp
  have fold: "foldl (\<lambda>t (_, p). SSL_free p t) u cs = foldl (\<lambda>t p. SSL_free p t) u (map snd cs)"
    for u and cs :: "(int \<times> ptr) list"
    by (induction cs arbitrary: u) auto
  have "owned (drop_context t)" "client_ssl (drop_context t) = client_ssl t" "ssl_ctx (drop_context t) = None"
    using drop_context_owned(1) [OF assms]
    by (auto simp: drop_context_def SSL_CTX_free_def split: option.split)
  then show ?thesis
    using frees [of "map snd (client_ssl t)" "drop_context t"]
    by (simp add: cleanupSSL_def fold owned_def)
qed

text \<open>
  A second \<open>enableSSL\<close> overwrites the pointer to the first context, which nothing frees then.
\<close>

lemma enable_again_leaks:
  assumes "ssl_ctx t = Some p" and "p \<in> set (live_ctx t)"
    and "enableSSL a t = (ok, t1)" and "\<And>q. ctx_made a = Some q \<Longrightarrow> q \<noteq> p"
  shows "ssl_ctx t1 \<noteq> Some p" and "p \<in> set (live_ctx (cleanupSSL t1))"
proof -
  have no_ctx: "live_ctx (SSL_free q u) = live_ctx u" for q u by (simp add: SSL_free_def)
  have "live_ctx (foldl (\<lambda>t (_, p). SSL_free p t) u cs) = live_ctx u" for u and cs :: "(int \<times> ptr) list"
    by (induction cs arbitrary: u) (auto simp: no_ctx)
  then have cleanup: "live_ctx (cleanupSSL u) = live_ctx (drop_context u)" for u by (simp add: cleanupSSL_def)
  have "ssl_ctx t1 \<noteq> Some p \<and> p \<in> set (live_ctx t1)"
    using assms by (auto simp: enableSSL_def initSSL_def drop_context_def SSL_CTX_free_def split: option.splits if_splits)
  then show "ssl_ctx t1 \<noteq> Some p" and "p \<in> set (live_ctx (cleanupSSL t1))"
    by (auto simp: cleanup drop_context_def SSL_CTX_free_def split: option.split)
qed

lemma failed_enable_keeps_flag:
  "enableSSL a t = (False, t1) \<Longrightarrow> ssl_enabled t1 = ssl_enabled t \<and> ssl_ctx t1 = None"
  by (auto simp: enableSSL_def initSSL_def drop_context_def SSL_CTX_free_def split: option.splits if_splits)

text \<open>
  Without TLS the accept loop is the one of Lifecycle; with it, a client that completes the
  handshake is taken in as any other, and what is sent to it from then on is encrypted.
\<close>

lemma acceptConnections_tls_off:
  "\<not> ssl_enabled t \<Longrightarrow>
     acceptConnections_tls rs t s = (t, acceptConnections (map (\<lambda>(e, h, r). (e, r)) rs) s)"
  by (induction rs arbitrary: s)
     (auto simp: accept_tls_def handshake_off split: accept_result.split sum.split)

lemma accept_tls_encrypts:
  assumes "ssl_enabled t" and "ssl_made h (ssl_ctx t) = Some p" and "set_fd_ok h" and "0 < accept_ret h"
    and "accept_tls e fd ip prt h t s = (t', r)"
  shows "r = accept_client e fd ip prt s" and "transport_of t' fd = Encrypted p"
    and "k \<noteq> fd \<Longrightarrow> transport_of t' k = transport_of t k"
  using assms by (auto simp: accept_tls_def handshake_def transport_of_def Let_def)

text \<open>Connections that all meet a handshake without a context.\<close>

lemma refused_all:
  assumes "ssl_enabled t" and "ssl_ctx t = None" and "\<And>h. h \<in> set hs \<Longrightarrow> ssl_made h None = None"
    and "length hs = length cons" and "running s"
  shows "acceptConnections_tls (map (\<lambda>(h, e, fd, ip, prt). (e, h, Accepted fd ip prt)) (zip hs cons)) t s
     = (t, Inr (s\<lparr>trace := trace s @ map (\<lambda>con. Close (con_fd con)) cons\<rparr>))"
  using assms(4,3,5)
proof (induction hs cons arbitrary: s rule: list_induct2)
  case (Cons h hs con cons)
  obtain e fd ip prt where con: "con = (e, fd, ip, prt)" by (cases con)
  have "handshake h fd t = (False, t)" using assms(1,2) Cons.prems(1) by (simp add: handshake_def)
  then show ?case using Cons by (simp add: con accept_tls_def emit_def)
qed simp

text \<open>A run for the witnesses: TLS switched on, then one client with a completed handshake.\<close>

definition good_answers :: enable_answers where
  "good_answers = \<lparr>ctx_made = Some 1, certificate_ret = 1, private_key_ret = 1, keys_match = True\<rparr>"

definition good_handshake :: handshake_answers where
  "good_handshake = \<lparr>ssl_made = (\<lambda>c. case c of None \<Rightarrow> None | Some _ \<Rightarrow> Some 2), set_fd_ok = True, accept_ret = 1\<rparr>"

definition enabled_tls :: tls where
  "enabled_tls = new_tls\<lparr>ssl_enabled := True, ssl_ctx := Some 1, live_ctx := [1]\<rparr>"

definition one_tls :: tls where
  "one_tls = enabled_tls\<lparr>client_ssl := [(5, 2)], live_ssl := [2]\<rparr>"

lemma enabled_tls_eq: "enableSSL good_answers new_tls = (True, enabled_tls)"
  by (simp add: enableSSL_def initSSL_def good_answers_def enabled_tls_def new_tls_def)

lemma one_tls_reachable: "tls_reachable one_tls one_client"
proof -
  have "tls_step (new_tls, started_server) (snd (enableSSL good_answers new_tls), Inr started_server)"
    by (rule tls_step.enabling) (simp add: new_tls_def)
  then have 1: "tls_reachable enabled_tls started_server"
    using tls_reachable.tls_more [OF tls_reachable.tls_fresh [OF started_initial], of enabled_tls "Inr started_server"]
    by (simp add: enabled_tls_eq)
  have "accept_tls sample_env 5 ''127.0.0.1'' 4000 good_handshake enabled_tls started_server
      = (one_tls, accept_client sample_env 5 ''127.0.0.1'' 4000 started_server)"
    by (simp add: accept_tls_def handshake_def good_handshake_def enabled_tls_def one_tls_def new_tls_def)
  moreover have "tls_step (enabled_tls, started_server)
      (accept_tls sample_env 5 ''127.0.0.1'' 4000 good_handshake enabled_tls started_server)"
    by (rule tls_step.accepting) (simp_all add: started_server_def new_server_def enabled_tls_def new_tls_def)
  ultimately show ?thesis
    using tls_reachable.tls_more [OF 1, of one_tls] by (simp add: one_client_def)
qed

subsection \<open>Properties\<close>

text \<open>C29: Built with TLS, the server neither leaks nor frees twice a connection object, in any order
  of enabling TLS, accepting, failing handshakes, lines, kicks, disconnections and stops: in every
  reachable state the objects in use are those of different connected clients, one each; \<open>stop\<close>
  frees all of them, and the destructor frees nothing a second time.\<close>

theorem tls_owned_once:
  assumes "tls_reachable t s" and "running s"
  shows "distinct (map fst (client_ssl t)) \<and> distinct (map snd (client_ssl t))
     \<and> set (map snd (client_ssl t)) = set (live_ssl t) \<and> bad_frees t = 0
     \<and> fst ` set (client_ssl t) \<subseteq> fst ` set (clients s)
     \<and> live_ssl (fst (stop_tls e self left t s)) = []
     \<and> live_ssl (fst (destroy_server e self left t s)) = [] \<and> bad_frees (fst (destroy_server e self left t s)) = 0"
proof -
  have inv: "owned t" "tls_fds t \<subseteq> fst ` set (clients s)"
    using tls_reachable_inv [OF assms(1)] by (simp_all add: tls_inv_def)
  define u where "u = fst (stop_tls e self left t s)"
  have "u = release_all (map fst (clients s)) t"
    using assms(2) by (simp add: u_def stop_tls_def stop_releases_all)
  then have u: "owned u" "tls_fds u = {}" using release_all_owned [OF inv(1)] inv(2) by auto
  then have "live_ssl u = []" by (auto simp: owned_def tls_fds_def)
  then show ?thesis
    using inv u(1) cleanup_frees [OF u(1)]
    by (cases "stop_tls e self left t s"; cases "snd (stop_tls e self left t s)")
       (simp_all add: owned_def tls_fds_def u_def destroy_server_def)
qed

theorem tls_owned_once_witness:
  "client_ssl one_tls = [(5, 2)] \<and> live_ssl one_tls = [2] \<and> live_ssl (fst (stop_tls sample_env 9 [0] one_tls one_client)) = []"
proof -
  have "client_ssl one_tls = [(5, 2)]" "live_ssl one_tls = [2]" by (simp_all add: one_tls_def)
  then show ?thesis
    using tls_owned_once [OF one_tls_reachable one_client_fields(1), of sample_env 9 "[0]"] by blast
qed

text \<open>C30: When TLS is on and \<open>enableSSL\<close> is called again and fails (a renewed certificate that
  does not match its key, say), TLS stays switched on without a context: from then on every
  connection is closed as soon as it is accepted, none becomes a client, and nothing else of
  the server changes.\<close>

theorem failed_enable_refuses_all:
  assumes on: "enableSSL a t = (True, t1)" and failed: "enableSSL b t1 = (False, t2)" and "running s"
    and SSL_new_null: "\<And>h. h \<in> set hs \<Longrightarrow> ssl_made h None = None" and "length hs = length cons"
  shows "isSSLEnabled t2
     \<and> acceptConnections_tls (map (\<lambda>(h, e, fd, ip, prt). (e, h, Accepted fd ip prt)) (zip hs cons)) t2 s
       = (t2, Inr (s\<lparr>trace := trace s @ map (\<lambda>con. Close (con_fd con)) cons\<rparr>))"
proof -
  have "ssl_enabled t1"
    using on by (auto simp: enableSSL_def split: prod.splits bool.splits if_splits)
  then have "ssl_enabled t2 \<and> ssl_ctx t2 = None" using failed_enable_keeps_flag [OF failed] by simp
  then show ?thesis using refused_all [OF _ _ SSL_new_null assms(5,3)] by (simp add: isSSLEnabled_def)
qed

theorem failed_enable_refuses_all_witness:
  "\<exists>t2. enableSSL (good_answers\<lparr>ctx_made := Some 3, keys_match := False\<rparr>) enabled_tls = (False, t2)
     \<and> isSSLEnabled t2
     \<and> (\<exists>s'. acceptConnections_tls [(sample_env, good_handshake, Accepted 5 ''127.0.0.1'' 4000)] t2 started_server
           = (t2, Inr s') \<and> clients s' = [] \<and> trace s' = [Close 5])"
proof -
  define b where "b = good_answers\<lparr>ctx_made := Some 3, keys_match := False\<rparr>"
  obtain t2 where t2: "enableSSL b enabled_tls = (False, t2)"
    by (simp add: b_def good_answers_def enableSSL_def initSSL_def)
  have "running started_server" "trace started_server = []" "clients started_server = []"
    by (simp_all add: started_server_def new_server_def)
  then show ?thesis
    using failed_enable_refuses_all [OF enabled_tls_eq t2, of started_server "[good_handshake]"
        "[(sample_env, 5, ''127.0.0.1'', 4000)]"] t2
    by (simp add: good_handshake_def b_def)
qed

end
