(* ===== verification/Tls_Client.thy ===== *)
theory Tls_Client
  imports Client
begin

section \<open>TLS in the client library (the OPENSSL_FOUND parts of src/client.cpp)\<close>

text \<open>
  The client with the members that a build with OpenSSL adds, around the client of Client.thy:
  the handshake in \<open>connect\<close>, the release in \<open>disconnect\<close>, and \<open>initSSL\<close>, \<open>cleanupSSL\<close>,
  \<open>enableSSL\<close>. OpenSSL's answers are arguments; \<open>SSL_connect\<close> is asked with the mode of
  the socket, which \<open>connect\<close> has set to non-blocking before.
\<close>

subsection \<open>State and operations\<close>

record ssl_client =
  plain :: client
  nonblocking :: bool
  c_ssl_enabled :: bool
  c_ssl_ctx :: "nat option"
  c_ssl :: "nat option"
  c_live_ctx :: "nat list"
  c_live_ssl :: "nat list"
  c_bad_frees :: nat

definition new_ssl_client :: ssl_client where
  "new_ssl_client =
     \<lparr>plain = new_chat_client, nonblocking = False, c_ssl_enabled = False, c_ssl_ctx = None, c_ssl = None,
      c_live_ctx = [], c_live_ssl = [], c_bad_frees = 0\<rparr>"

definition enableSSL_client :: "bool \<Rightarrow> ssl_client \<Rightarrow> ssl_client" where
  "enableSSL_client enable c = c\<lparr>c_ssl_enabled := enable\<rparr>"

definition isSSLEnabled_client :: "ssl_client \<Rightarrow> bool" where
  "isSSLEnabled_client c = c_ssl_enabled c"

text \<open>\<open>SSL_free(ssl_); ssl_ = nullptr\<close>, and the same for the context.\<close>

definition free_ssl :: "ssl_client \<Rightarrow> ssl_client" where
  "free_ssl c =
     (case c_ssl c of
        None \<Rightarrow> c
      | Some p \<Rightarrow>
          if p \<in> set (c_live_ssl c) then c\<lparr>c_ssl := None, c_live_ssl := removeAll p (c_live_ssl c)\<rparr>
          else c\<lparr>c_ssl := None, c_bad_frees := c_bad_frees c + 1\<rparr>)"

definition free_ctx :: "ssl_client \<Rightarrow> ssl_client" where
  "free_ctx c =
     (case c_ssl_ctx c of
        None \<Rightarrow> c
      | Some p \<Rightarrow>
          if p \<in> set (c_live_ctx c) then c\<lparr>c_ssl_ctx := None, c_live_ctx := removeAll p (c_live_ctx c)\<rparr>
          else c\<lparr>c_ssl_ctx := None, c_bad_frees := c_bad_frees c + 1\<rparr>)"

definition initSSL_client :: "nat option \<Rightarrow> ssl_client \<Rightarrow> bool \<times> ssl_client" where
  "initSSL_client made c =
     (case c_ssl_ctx c of
        Some _ \<Rightarrow> (True, c)
      | None \<Rightarrow>
          (case made of
             None \<Rightarrow> (False, c)
           | Some p \<Rightarrow> (True, c\<lparr>c_ssl_ctx := Some p, c_live_ctx := p # c_live_ctx c\<rparr>)))"

definition cleanupSSL_client :: "ssl_client \<Rightarrow> ssl_client" where
  "cleanupSSL_client c = free_ctx (free_ssl c)"

definition disconnect_tls :: "ssl_client \<Rightarrow> ssl_client" where
  "disconnect_tls c =
     (if \<not> connected (plain c) then c
      else free_ssl (c\<lparr>plain := client_disconnect (plain c)\<rparr>))"

record connect_answers =
  made_ctx :: "nat option"
  made_ssl :: "nat option"
  fd_set_ok :: bool
  ssl_connect :: "bool \<Rightarrow> int"

text \<open>
  The handshake, between the switch to non-blocking mode and the assignment of the members
  that make the client connected.
\<close>

definition client_handshake :: "connect_answers \<Rightarrow> ssl_client \<Rightarrow> bool \<times> ssl_client" where
  "client_handshake a c =
     (case initSSL_client (made_ctx a) c of
        (False, c1) \<Rightarrow> (False, disconnect_tls c1)
      | (True, c1) \<Rightarrow>
          (case made_ssl a of
             None \<Rightarrow> (False, disconnect_tls (c1\<lparr>c_ssl := None\<rparr>))
           | Some p \<Rightarrow>
               let c2 = c1\<lparr>c_ssl := Some p, c_live_ssl := p # c_live_ssl c1\<rparr>
               in if \<not> fd_set_ok a then (False, disconnect_tls (free_ssl c2))
                  else if ssl_connect a (nonblocking c2) \<le> 0 then (False, disconnect_tls (free_ssl c2))
                  else (True, c2)))"

definition connect_tls ::
  "int \<Rightarrow> bool \<Rightarrow> bool \<Rightarrow> connect_answers \<Rightarrow> ssl_client \<Rightarrow> bool \<times> ssl_client" where
  "connect_tls fd address_ok connect_ok a c =
     (case connect fd address_ok connect_ok (plain c) of
        (False, p) \<Rightarrow> (False, c\<lparr>plain := p\<rparr>)
      | (True, p) \<Rightarrow>
          if \<not> c_ssl_enabled c then (True, c\<lparr>plain := p, nonblocking := True\<rparr>)
          else case client_handshake a (c\<lparr>plain := (plain c)\<lparr>sock := fd\<rparr>, nonblocking := True\<rparr>) of
                 (False, c1) \<Rightarrow> (False, c1)
               | (True, c1) \<Rightarrow> (True, c1\<lparr>plain := (plain c1)\<lparr>connected := True\<rparr>\<rparr>))"

definition destroy_ssl_client :: "ssl_client \<Rightarrow> abort + ssl_client" where
  "destroy_ssl_client c =
     (let c1 = cleanupSSL_client (disconnect_tls c)
      in if receive_thread (plain c1) then Inl Terminate else Inr c1)"

text \<open>\<open>send\<close>: through the connection object when there is one.\<close>

definition send_tls :: "bool \<Rightarrow> bool \<Rightarrow> string \<Rightarrow> ssl_client \<Rightarrow> bool \<times> ssl_client" where
  "send_tls ssl_write_ok write_ok data c =
     (let ok = (if c_ssl_enabled c \<and> c_ssl c \<noteq> None then ssl_write_ok else write_ok)
      in case client_send ok data (plain c) of (r, p) \<Rightarrow> (r, c\<lparr>plain := p\<rparr>))"

subsection \<open>Attempts to connect\<close>

text \<open>What a program does that tries again on other sockets.\<close>

fun attempts :: "connect_answers \<Rightarrow> int list \<Rightarrow> ssl_client \<Rightarrow> bool \<times> ssl_client" where
  "attempts a [] c = (False, c)"
| "attempts a (fd # fds) c =
     (case connect_tls fd True True a c of
        (True, c1) \<Rightarrow> (True, c1)
      | (False, c1) \<Rightarrow> attempts a fds c1)"

definition idle :: "ssl_client \<Rightarrow> bool" where
  "idle c \<longleftrightarrow> \<not> connected (plain c) \<and> c_ssl_enabled c \<and> c_ssl c = None"

lemma failing_handshake:
  assumes "idle c" and "ssl_connect a True \<le> 0" and "0 \<le> fd"
    and "\<And>p. made_ssl a = Some p \<Longrightarrow> p \<notin> set (c_live_ssl c)"
  shows "\<exists>c'. connect_tls fd True True a c = (False, c') \<and> idle c' \<and> plain c' = (plain c)\<lparr>sock := fd\<rparr>
     \<and> c_live_ssl c' = c_live_ssl c \<and> c_bad_frees c' = c_bad_frees c"
  using assms
  by (cases "c_ssl_ctx c"; cases "made_ctx a"; cases "made_ssl a")
     (auto simp: connect_tls_def connect_def client_handshake_def initSSL_client_def idle_def disconnect_tls_def
        free_ssl_def Let_def)

lemma failing_attempts:
  assumes "idle c" and "ssl_connect a True \<le> 0" and "\<forall>fd \<in> set fds. 0 \<le> fd"
    and "\<And>p. made_ssl a = Some p \<Longrightarrow> p \<notin> set (c_live_ssl c)"
  shows "\<exists>c'. attempts a fds c = (False, c') \<and> idle c' \<and> events (plain c') = events (plain c)
     \<and> c_live_ssl c' = c_live_ssl c \<and> c_bad_frees c' = c_bad_frees c"
  using assms
proof (induction fds arbitrary: c)
  case (Cons fd fds)
  obtain c1 where c1: "connect_tls fd True True a c = (False, c1)" "idle c1" "plain c1 = (plain c)\<lparr>sock := fd\<rparr>"
    "c_live_ssl c1 = c_live_ssl c" "c_bad_frees c1 = c_bad_frees c"
    using failing_handshake [OF Cons.prems(1,2) _ Cons.prems(4), of fd] Cons.prems(3) by auto
  then show ?case using Cons.IH [of c1] Cons.prems by simp
qed simp

subsection \<open>Properties\<close>


text \<open>Answers as on a network: the handshake succeeds only when the socket blocks.\<close>

definition network_answers :: connect_answers where
  "network_answers = \<lparr>made_ctx = Some 1, made_ssl = Some 2, fd_set_ok = True,
     ssl_connect = (\<lambda>nonblocking. if nonblocking then -1 else 1)\<rparr>"


end
