(* ===== verification/Web_Page.thy ===== *)
theory Web_Page
  imports Web
begin

section \<open>The page and the protocols of the web server (src/web_server.cpp)\<close>

text \<open>
  The HTML page that the source carries, its way through the buffer of \<open>callback_http\<close>, and the
  table of protocols: which callback a connection gets that the page opens. How libwebsockets
  chooses an entry is an argument \<open>pick\<close> (the requested subprotocol, if any, and the names of
  the table, to an index).
\<close>

subsection \<open>The page\<close>

definition html_lines :: "string list" where
  \<open>html_lines = [
     ''<!DOCTYPE html>'',
     ''<html>'',
     ''<head>'',
     ''    <title>SmallChat</title>'',
     ''    <style>'',
     ''        body { font-family: Arial, sans-serif; max-width: 800px; margin: 0 auto; padding: 20px; }'',
     ''        #login-panel { display: block; }'',
     ''        #chat-panel { display: none; }'',
     ''        #messages { height: 300px; overflow-y: scroll; border: 1px solid #ccc; padding: 10px; margin: 10px 0; }'',
     ''        .message { margin: 5px 0; padding: 5px; border-radius: 5px; }'',
     ''        .system { color: #888; font-style: italic; }'',
     ''        .private { background: #e6f2ff; }'',
     ''        .broadcast { background: #f0f0f0; }'',
     ''        .my-message { background: #e6ffe6; text-align: right; }'',
     ''        input[type=text] { width: 70%; padding: 8px; }'',
     ''        button { padding: 8px 16px; }'',
     ''    </style>'',
     ''</head>'',
     ''<body>'',
     ''    <div id="login-panel">'',
     ''        <h1>SmallChat</h1>'',
     ''        <input type="text" id="username" placeholder="Enter username">'',
     ''        <button onclick="login()">Login</button>'',
     ''    </div>'',
     ''    '',
     ''    <div id="chat-panel">'',
     ''        <h2>Chat Room</h2>'',
     ''        <div id="messages"></div>'',
     ''        <input type="text" id="message-input" placeholder="Enter message...">'',
     ''        <button onclick="sendMessage()">Send</button>'',
     ''        <button onclick="logout()">Logout</button>'',
     ''    </div>'',
     ''    <script>'',
     ''        var ws;'',
     ''        var username = "";'',
     ''        function login() {'',
     ''            username = document.getElementById("username").value.trim();'',
     ''            if (!username) return;'',
     ''            ws = new WebSocket("ws://" + window.location.host + "/ws");'',
     ''            ws.onopen = function() {'',
     ''                ws.send("/login " + username);'',
     ''                document.getElementById("login-panel").style.display = "none";'',
     ''                document.getElementById("chat-panel").style.display = "block";'',
     ''                document.getElementById("message-input").focus();'',
     ''            };'',
     ''            ws.onmessage = function(event) {'',
     ''                addMessage(event.data);'',
     ''            };'',
     ''            ws.onclose = function() {'',
     ''                addMessage("[SYS] Disconnected");'',
     ''                document.getElementById("chat-panel").style.display = "none";'',
     ''                document.getElementById("login-panel").style.display = "block";'',
     ''            };'',
     ''        }'',
     ''        function logout() {'',
     ''            if (ws) {'',
     ''                ws.send("/quit");'',
     ''                ws.close();'',
     ''            }'',
     ''        }'',
     ''        function sendMessage() {'',
     ''            var input = document.getElementById("message-input");'',
     ''            var message = input.value.trim();'',
     ''            if (message && ws) {'',
     ''                ws.send(message);'',
     ''                addMessage("Me: " + message, "my-message");'',
     ''                input.value = "";'',
     ''            }'',
     ''        }'',
     ''        function addMessage(text, className) {'',
     ''            if (!className) className = "broadcast";'',
     ''            var div = document.createElement("div");'',
     ''            div.className = "message " + className;'',
     ''            if (text.indexOf("[SYS]") == 0) {'',
     ''                div.className = "message system";'',
     ''            } else if (text.indexOf("->") != -1) {'',
     ''                div.className = "message private";'',
     ''            }'',
     ''            div.textContent = text;'',
     ''            var messagesDiv = document.getElementById("messages");'',
     ''            messagesDiv.appendChild(div);'',
     ''            messagesDiv.scrollTop = messagesDiv.scrollHeight;'',
     ''        }'',
     ''        document.getElementById("message-input").addEventListener("keypress", function(e) {'',
     ''            if (e.keyCode == 13) sendMessage();'',
     ''        });'',
     ''        document.getElementById("username").addEventListener("keypress", function(e) {'',
     ''            if (e.keyCode == 13) login();'',
     ''        });'',
     ''    </script>'',
     ''</body>'',
     ''</html>'']\<close>

definition html_page :: string where
  "html_page = unlines html_lines"

text \<open>
  The HTTP callback with its buffer: the page as far as \<open>strlen\<close> sees it is copied to
  16384 bytes; a longer one would be written past the end (\<open>None\<close>).
\<close>

definition send_page :: "string \<Rightarrow> http_out list option" where
  "send_page page =
     (let page_len = length (c_string page)
      in if page_len \<le> 16384 then Some [Http_write (take page_len page), Http_completed] else None)"

subsection \<open>The protocols\<close>

datatype callback = Http_callback | Websocket_callback

text \<open>Name, callback and size of the receive buffer.\<close>

definition protocols :: "(string \<times> callback \<times> nat) list" where
  "protocols = [(''http-only'', Http_callback, 0), (''smallchat-protocol'', Websocket_callback, 1024)]"

definition session_callback :: "(string option \<Rightarrow> string list \<Rightarrow> nat) \<Rightarrow> string option \<Rightarrow> callback" where
  "session_callback pick requested = fst (snd (protocols ! pick requested (map fst protocols)))"

text \<open>
  A callback of a WebSocket connection: the one of the HTTP protocol has no case but the page
  request.
\<close>

definition lws_event :: "callback \<Rightarrow> nat \<Rightarrow> ws_reason \<Rightarrow> web \<Rightarrow> abort + web" where
  "lws_event cb wsi reason w =
     (case cb of
        Http_callback \<Rightarrow> Inr w
      | Websocket_callback \<Rightarrow> callback_websocket wsi reason w)"

fun lws_session_run :: "callback \<Rightarrow> nat \<Rightarrow> ws_reason list \<Rightarrow> web \<Rightarrow> abort + web" where
  "lws_session_run cb wsi [] w = Inr w"
| "lws_session_run cb wsi (r # rs) w =
     (case lws_event cb wsi r w of Inl a \<Rightarrow> Inl a | Inr w1 \<Rightarrow> lws_session_run cb wsi rs w1)"

subsection \<open>What the page's script does\<close>

text \<open>
  \<open>new WebSocket(url)\<close> without a second argument requests no subprotocol; \<open>onopen\<close> sends the
  login, \<open>sendMessage\<close> the text as typed, \<open>logout\<close> a quit before it closes. The names are trimmed.
\<close>

definition page_subprotocol :: "string option" where
  "page_subprotocol = None"

definition page_session :: "string \<Rightarrow> string list \<Rightarrow> ws_reason list" where
  "page_session username messages =
     Established # Receive (''/login '' @ username) # map Receive messages @ [Receive ''/quit'', Closed]"

subsection \<open>Properties\<close>

lemma html_page_length: "length html_page = 3606"
proof -
  have "length html_page = sum_list (map (\<lambda>l. length l + 1) html_lines)"
    unfolding html_page_def by (simp add: length_concat comp_def)
  also have "\<dots> = 3606" by code_simp
  finally show ?thesis .
qed

lemma html_page_no_nul: "CHR 0x00 \<notin> set html_page"
proof -
  have "list_all (list_all (\<lambda>c. c \<noteq> CHR 0x00)) html_lines" by code_simp
  then have "\<And>l. l \<in> set html_lines \<Longrightarrow> CHR 0x00 \<notin> set l" by (auto simp: list_all_iff)
  then show ?thesis by (auto simp: html_page_def)
qed

text \<open>The page that the source carries fits the buffer it is copied through, and it goes out
  complete: nothing is written past the 16384 bytes, and no character is cut off.\<close>

theorem page_fits:
  "send_page html_page = Some (callback_http html_page True) \<and> length html_page = 3606"
proof -
  have "c_string html_page = html_page"
    using html_page_no_nul by (simp add: c_string_def takeWhile_eq_all_conv) metis
  then show ?thesis by (simp add: send_page_def callback_http_def html_page_length)
qed

lemma http_callback_ignores: "lws_session_run Http_callback wsi rs w = Inr w"
  by (induction rs) (simp_all add: lws_event_def)

text \<open>C32: The page cannot chat on libwebsockets: it asks for no subprotocol, the library then takes
  the first protocol of the table, and that is the HTTP one, whose callback ignores what a
  connection sends: whatever the user types, no name is taken, no line is broadcast and nothing
  is answered. A client that asks for the second protocol by name reaches the chat's callback.\<close>

theorem page_never_chats:
  fixes pick :: "string option \<Rightarrow> string list \<Rightarrow> nat"
  assumes unasked: "pick None (map fst protocols) = 0"
    and named: "\<And>i. i < length protocols \<Longrightarrow> pick (Some (map fst protocols ! i)) (map fst protocols) = i"
  shows "lws_session_run (session_callback pick page_subprotocol) wsi (page_session username messages) w = Inr w
     \<and> session_callback pick (Some ''smallchat-protocol'') = Websocket_callback"
proof -
  have "session_callback pick page_subprotocol = Http_callback"
    using unasked by (simp add: session_callback_def page_subprotocol_def protocols_def)
  moreover have "session_callback pick (Some ''smallchat-protocol'') = Websocket_callback"
    using named [of 1] by (simp add: session_callback_def protocols_def)
  ultimately show ?thesis by (simp add: http_callback_ignores)
qed

text \<open>The documented choice: the index of the name that was asked for, the first entry otherwise.\<close>

definition lws_choice :: "string option \<Rightarrow> string list \<Rightarrow> nat" where
  "lws_choice requested names =
     (case requested of
        None \<Rightarrow> 0
      | Some n \<Rightarrow> if n \<in> set names then length (takeWhile (\<lambda>m. m \<noteq> n) names) else 0)"

theorem page_never_chats_witness:
  "lws_session_run (session_callback lws_choice page_subprotocol) 7 (page_session ''eve'' [''hi'']) sample_web
     = Inr sample_web"
proof -
  have "lws_choice (Some (map fst protocols ! i)) (map fst protocols) = i" if "i < length protocols" for i
  proof -
    have "i = 0 \<or> i = 1" using that by (auto simp: protocols_def)
    then show ?thesis by (auto simp: protocols_def lws_choice_def)
  qed
  then show ?thesis
    using page_never_chats [of lws_choice] by (simp add: lws_choice_def)
qed

end
