(* ===== verification/Boost_Service.thy ===== *)
theory Boost_Service
  imports Web_Boost
begin

section \<open>Listener and service thread of the Boost variant (src/web_server_impl.cpp)\<close>

text \<open>
  The constructor of the listener, the accept handler that arms itself again, the service
  thread in \<open>io_context::run\<close>, and \<open>stop\<close> and \<open>run\<close> of \<open>WebServer\<close>. The completions that
  the \<open>io_context\<close> delivers are an argument; one that has been stopped makes \<open>io_context::run\<close>
  return before it delivers another, as Boost documents.
\<close>

subsection \<open>The listener\<close>

datatype listener = Listener (accepting: bool) (complaint: "string option")

definition new_listener :: "bool \<Rightarrow> bool \<Rightarrow> bool \<Rightarrow> bool \<Rightarrow> listener" where
  "new_listener opened reusable bound listens =
     (if \<not> opened then Listener False (Some ''[WebSocket] Open error: '')
      else if \<not> reusable then Listener False (Some ''[WebSocket] Set option error: '')
      else if \<not> bound then Listener False (Some ''[WebSocket] Bind error: '')
      else if \<not> listens then Listener False (Some ''[WebSocket] Listen error: '')
      else Listener True None)"

datatype completion = Accept_error | Accepted_socket "string option list"

record service =
  armed :: bool
  handed_over :: "handed list"
  accept_errors :: nat

definition do_accept :: "service \<Rightarrow> service" where
  "do_accept v = v\<lparr>armed := True\<rparr>"

definition on_accept :: "completion \<Rightarrow> service \<Rightarrow> service" where
  "on_accept c v =
     do_accept
       (case c of
          Accept_error \<Rightarrow> v\<lparr>armed := False, accept_errors := accept_errors v + 1\<rparr>
        | Accepted_socket reqs \<Rightarrow>
            v\<lparr>armed := False, handed_over := handed_over v @ [listener_on_accept reqs]\<rparr>)"

text \<open>A service whose accept operation is pending: \<open>listener_->run()\<close>.\<close>

definition new_service :: service where
  "new_service = do_accept \<lparr>armed = False, handed_over = [], accept_errors = 0\<rparr>"

subsection \<open>The threads\<close>

text \<open>
  What the service thread finds: that the \<open>io_context\<close> is stopped, or a completion. The result
  says whether \<open>io_context::run\<close> has returned; it also does when no operation is pending.
\<close>

datatype found = Stopped | Completion completion

fun ioc_run :: "found list \<Rightarrow> service \<Rightarrow> service \<times> bool" where
  "ioc_run [] v = (v, \<not> armed v)"
| "ioc_run (Stopped # rest) v = (v, True)"
| "ioc_run (Completion c # rest) v =
     (if \<not> armed v then (v, True) else ioc_run rest (on_accept c v))"

text \<open>
  \<open>WebServer::stop\<close>: the member \<open>running_\<close> is cleared, the \<open>io_context\<close> stopped, and the thread
  joined when there is one. \<open>cs\<close> are the completions handled before the thread sees the stop;
  the last component is whether \<open>stop\<close> returns.
\<close>

definition boost_stop :: "bool \<Rightarrow> completion list \<Rightarrow> service \<Rightarrow> bool \<times> service \<times> bool" where
  "boost_stop joinable cs v =
     (let keep_running = False;
          (v1, ended) = ioc_run (map Completion cs @ [Stopped]) v
      in (keep_running, v1, if joinable then ended else True))"

text \<open>\<open>WebServer::run\<close>: sleeps while \<open>running_\<close> is set; the number of sleeps, and whether it returned.\<close>

fun boost_web_run :: "bool list \<Rightarrow> nat \<times> bool" where
  "boost_web_run [] = (0, False)"
| "boost_web_run (r # rs) =
     (if r then (case boost_web_run rs of (n, returned) \<Rightarrow> (n + 1, returned)) else (0, True))"

subsection \<open>Properties\<close>

lemma stays_armed: "armed v \<Longrightarrow> armed (on_accept c v)"
  by (simp add: on_accept_def do_accept_def)

lemma ioc_run_completions:
  "armed v \<Longrightarrow> ioc_run (map Completion cs @ rest) v = ioc_run rest (fold on_accept cs v)"
  by (induction cs arbitrary: v) (simp_all add: stays_armed)

lemma fold_armed: "armed v \<Longrightarrow> armed (fold on_accept cs v)"
  by (induction cs arbitrary: v) (simp_all add: stays_armed)

lemma only_errors: "set cs \<subseteq> {Accept_error} \<Longrightarrow>
    accept_errors (fold on_accept cs v) = accept_errors v + length cs \<and> handed_over (fold on_accept cs v) = handed_over v"
  by (induction cs arbitrary: v) (auto simp: on_accept_def do_accept_def)

text \<open>The service thread of the Boost variant serves until it is stopped and can be joined then,
  whatever completes; but when its port could not be bound, where every pending accept fails
  at once, it goes round without end, with one error message a round, and nobody is ever served.\<close>

theorem boost_service_ends:
  "snd (ioc_run (map Completion cs) new_service) = False
     \<and> snd (snd (boost_stop True later (fst (ioc_run (map Completion cs) new_service))))
     \<and> (set cs \<subseteq> {Accept_error} \<longrightarrow>
          accept_errors (fst (ioc_run (map Completion cs) new_service)) = length cs
          \<and> handed_over (fst (ioc_run (map Completion cs) new_service)) = [])"
proof -
  have new: "armed new_service" "accept_errors new_service = 0" "handed_over new_service = []"
    by (simp_all add: new_service_def do_accept_def)
  have run: "ioc_run (map Completion cs) new_service = (fold on_accept cs new_service, False)"
    using ioc_run_completions [OF new(1), of cs "[]"] fold_armed [OF new(1)] by simp
  have "snd (snd (boost_stop True later v))" if "armed v" for v
    using ioc_run_completions [OF that, of later "[Stopped]"] by (simp add: boost_stop_def)
  then show ?thesis
    using fold_armed [OF new(1)] only_errors [of cs new_service] new by (simp add: run)
qed

end
