(* ===== verification/Spec2Isabelle.thy ===== *)
theory Spec2Isabelle
  imports Fan_Out Programs Names Client_Main Locking Race Room_Directory Sessions Timestamp
    Tls Tls_Client Web_Page Boost_Service
begin

text \<open>
  SmallChat, a chat server in C++ with a client library, a console client and a WebSocket
  side: a shallow embedding of its sources and the theorems that hold of them.

  THE PROGRAM. \<open>ChatServer\<close> (src/server.cpp) accepts TCP connections and gives each a thread
  that cuts the bytes into lines and handles one line after the other: a command (a slash and
  a word), a line of the binary-safe \<open>MSG\<close> protocol, a line of the file and receipt protocol, or
  plain text. The handlers change the tables of the server (clients, names, accounts, rooms,
  histories) and write to sockets. \<open>ChatProtocol\<close> and \<open>utils\<close> (src/common.cpp) are the line
  formats, Base64, identifiers and emojis. \<open>ChatClient\<close> (src/client.cpp) sends the commands and
  dispatches what arrives to callbacks, which src/main_client.cpp installs for the console.
  \<open>WebServer\<close> exists twice: src/web_server.cpp on libwebsockets, which the build uses, and
  src/web_server_impl.cpp on Boost.Beast. Both reach the chat server through the callbacks that
  \<open>ChatServer::broadcast\<close> and \<open>sendToClient\<close> call.

  HOW IT IS MODELLED. A C++ object is a record, its member functions are functions on the
  record; a \<open>std::string\<close> is a list of 8-bit characters; an \<open>unordered_map\<close> is an association
  list with distinct keys whose order is the iteration order of the container, so that what is
  proved of any state holds for every order. Integers are words where they wrap (Base64, the
  message header, the port), otherwise integers with the ranges of \<open>stoi\<close> and \<open>stoull\<close> written
  out. Socket writes, callbacks and closed descriptors are events of a trace in the order of
  the calls. Exceptions that nobody catches, joins that do not return and terminations are
  values (\<open>abort\<close>), with the state they leave. What comes from outside is an argument: the
  clock, random draws, the text of a time (\<open>format_time\<close> of the environment, for which
  \<open>formatTimestamp zone\<close> of Timestamp is the code's function), the time zone, the file system,
  the results of the socket calls and of OpenSSL, the chunks that \<open>recv\<close> returns, the threads that
  return while \<open>stop\<close> waits.

  THE THEORIES, in the order of the code's layers:
  \<^item> Prelude: strings, stream extraction, fields of a line, association lists.
  \<^item> Numbers: decimal and hexadecimal text, \<open>stoi\<close>, \<open>stoull\<close>.
  \<^item> Base64, Protocol, Emoji (src/common.cpp, include/common.h): the encoders and decoders
    byte by byte, the \<open>MSG\<close> line, the emoji table and its replacement. Lemmas: round trips,
    the lines that \<open>decode\<close> accepts, the replacement as one left-to-right scan.
  \<^item> Password (src/server.cpp 37-141): salts, the stored form of a password and its check,
    with the contract of the two variants as locales \<open>salted_hash\<close> and \<open>injective_hash\<close>.
  \<^item> Server_State (include/server.h): the record of the server, sending, broadcasting, lookups.
  \<^item> Persistence: the two text files, with the locale \<open>line_codec\<close> for their lines.
  \<^item> Invariant: well-formedness of the tables (\<open>server_inv\<close>) and what keeps it.
  \<^item> Accounts, Rooms, Messaging, Moderation, File_Transfer: one function per command and kind
    of line, every branch of the source, with its functional behaviour.
  \<^item> Framing, Handler: the line buffer of \<open>handleClient\<close>, the dispatch of lines.
  \<^item> Lifecycle: \<open>start\<close>, \<open>acceptConnections\<close>, \<open>handleClient\<close>, \<open>stop\<close>; steps of the server and
    reachable states, with the locales \<open>stable_property\<close> and \<open>server_property\<close>.
  \<^item> Accepting, Sessions: runs of the accept loop; connections, bytes of many clients and ends of
    streams in any order, reduced to the steps of Lifecycle.
  \<^item> Names, Race, Locking: who can carry which name; two logins at once, critical section by
    critical section; what each operation locks and joins, and when threads block each other.
  \<^item> Timestamp: \<open>formatTimestamp\<close> with its calendar, against the closed formula for day numbers.
  \<^item> Tls, Tls_Client: the \<open>OPENSSL_FOUND\<close> parts of server and client, with an account of
    OpenSSL's objects: who owns which, and what is freed when.
  \<^item> Room_Directory: the rooms as an abstract map from names to sets of members, which every
    line refines.
  \<^item> Client, Client_Main: the client library, the console.
  \<^item> Web, Web_Page, Web_Boost, Boost_Service, Fan_Out: the two WebSocket servers, the page that
    the first one serves and the protocol it gets, the listener and service thread of the
    second, and the contract that the three broadcasts share as a locale.
  \<^item> Programs: the \<open>main\<close> functions, signal handlers and the service thread of the WebSocket
    server.
  This theory holds what spans client and server: chat and login from the bytes that one side
  writes to the callback that the other side calls.

  WHAT THE LEMMAS SHOW. Per component: the effect of each operation on state and trace, on its
  success and on its refusals; preservation of \<open>server_inv\<close> by every operation, hence in
  every reachable state. Across components: every interleaving of the clients' bytes is a run of whole lines, no line of a client
  ends the server's thread except by the joins named below, a restart restores what a stop
  saved, the lock order excludes deadlock as long as nobody is joined. Where the code does not
  do what it means to, the theorem says what it does: a closing connection joins its own thread,
  \<open>/kick\<close> and \<open>WebServer::stop\<close> wait for ever, \<open>/nick\<close> takes the name of an account, two logins
  share a name, system messages and the last user are lost in the client, relayed lines are
  dropped, a last line without a line break is sent again and again, one failing \<open>accept\<close> ends
  accepting, the page never reaches the chat, a failed \<open>enableSSL\<close> shuts everybody out, and a
  client with TLS never connects.

  RECURSION AND FUEL. Loops over data are structural or have a measure (the length of what is
  left to read or drain); \<open>handleClient\<close>, \<open>acceptConnections\<close>, \<open>receiveThread\<close> and the loops of
  the programs recurse over the list of what the environment delivers, so every finite run is
  covered. \<open>console_rounds\<close> counts rounds of a loop that may not end; its theorem holds for
  every number of them.

  INTERLEAVING. A step of Lifecycle is one whole line, connection or call; Sessions takes the
  chunks of bytes of all clients in any order to such steps; below that grain, Race splits \<open>/login\<close> into its critical sections and Locking keeps only the locks and joins.

  NOT MODELLED. The Windows branches, diagnostic output to the server's console, the key
  derivation of the OpenSSL variant of the password (a parameter; the text format is modelled),
  the second and identical copy of the \<open>/register\<close> branch (server.cpp 1613-1678), which cannot
  be reached, \<open>port_\<close> and \<open>server_fd_\<close>, the sockets, event loops and TLS of the libraries, the
  reading of encrypted bytes, and data races on members that are read without their mutex
  (\<open>running_\<close>, \<open>rooms_\<close>, \<open>client_ssl_\<close>, fields of \<open>ClientInfo\<close>). The build sets a CMake variable
  \<open>OPENSSL_FOUND\<close> and never the macro, so what Tls and Tls_Client model is not compiled; all
  other theories model the compiled variant.
\<close>

section \<open>Properties that span components\<close>

subsection \<open>Bytes between client and server\<close>

lemma receive_line:
  assumes "receiving c" and "connected c" and "newline \<notin> set l" and "CHR 0x00 \<notin> set l" and "l \<noteq> []"
  shows "receiveThread now [Data (l @ [newline])] ([], c) =
    (case processMessage now l c of Inl a \<Rightarrow> Inl a | Inr c' \<Rightarrow> Inr ([], c'))"
  using receive_one_line [of "[l @ [newline]]" l "processMessage now" c] assms
  by (simp split: sum.splits)

text \<open>Names that travel unharmed.\<close>

definition clean :: "string \<Rightarrow> bool" where
  "clean s \<longleftrightarrow> field_sep \<notin> set s \<and> newline \<notin> set s \<and> CHR 0x00 \<notin> set s"

text \<open>The answer to a login arrives as the success that the console recognises.\<close>

lemma receive_login_answer:
  assumes "clean name" and "receiving c" and "connected c" and "listening c"
  shows "receiveThread now [Data (encodeSuccess (''Logged in as '' @ name))] ([], c) =
    Inr ([], note_event (On_success (''Logged in as '' @ name)) c)"
proof -
  let ?r = "''OK|'' @ ''Logged in as '' @ name"
  have "receiveThread now [Data (?r @ [newline])] ([], c) =
      (case processMessage now ?r c of Inl a \<Rightarrow> Inl a | Inr c' \<Rightarrow> Inr ([], c'))"
    using assms(1) by (intro receive_line assms(2,3)) (auto simp: clean_def)
  also have "\<dots> = Inr ([], note_event (On_success (''Logged in as '' @ name)) c)"
    unfolding process_ok_line using assms(4) by (simp add: process_ok_def listening_def)
  finally show ?thesis by (simp add: encodeSuccess_def)
qed

text \<open>The line of a login, and what the server makes of it.\<close>

lemma login_line:
  assumes "word name" and "line_text password" and "map_of (users s) name = Some h"
    and "hashPassword draw password = Inr h" and "getClientByName name s = None"
    and "map_of (clients s) fd = Some client"
  shows "handle_next envs self fd (''/login '' @ name @ '' '' @ password) (k, s) =
    Inr (k + 1, login_finish fd name s)"
proof -
  have "word ''/login''" by (simp add: word_def is_space_def)
  then have rw: "read_word (''/login '' @ name @ '' '' @ password) = (''/login'', '' '' @ name @ '' '' @ password)"
    using read_word_append [of "''/login''" "CHR '' ''" "name @ '' '' @ password"] by simp
  have "handle_line e self fd (''/login '' @ name @ '' '' @ password) s =
      handle_login e fd ('' '' @ name @ '' '' @ password) s" for e
    unfolding handle_line_def using account_dispatch(1) [OF rw] assms(6) by (simp add: getClientBySocket_def)
  then show ?thesis using login_account_eq [OF assms(1-5)] by (simp add: handle_next_def)
qed

text \<open>The characters of an identifier, for draws within the character set.\<close>

lemma id_characters:
  assumes "\<And>i. draw i < length id_charset" and "c \<in> set (generateRandomId draw n)"
  shows "c \<in> set id_charset"
  using assms by (auto simp: generateRandomId_def)

lemma id_charset_safe: "newline \<notin> set id_charset" "field_sep \<notin> set id_charset" "CHR 0x00 \<notin> set id_charset"
  by (simp_all add: id_charset_def)

lemma encode_no_nul:
  assumes "CHR 0x00 \<notin> set (sender m)" and "CHR 0x00 \<notin> set (receiver m)" and "CHR 0x00 \<notin> set (message_id m)"
  shows "CHR 0x00 \<notin> set (encode m)"
proof -
  have "CHR 0x00 \<notin> set (base64Encode (content m))" using base64Encode_safe by blast
  moreover have "CHR 0x00 \<notin> set (show_int i)" for i
    by (simp add: show_int_def)
  ultimately show ?thesis using assms by (simp add: encode_def)
qed

text \<open>A line that the server takes as chat text.\<close>

definition plain_text :: "string \<Rightarrow> bool" where
  "plain_text l \<longleftrightarrow> l \<noteq> [] \<and> newline \<notin> set l \<and> take 1 l \<noteq> ''/'' \<and> take 3 l \<noteq> ''MSG''
     \<and> take 13 l \<noteq> ''FILE_TRANSFER'' \<and> take 12 l \<noteq> ''FILE_REQUEST'' \<and> take 13 l \<noteq> ''FILE_RESPONSE''
     \<and> take 9 l \<noteq> ''FILE_DATA'' \<and> take 12 l \<noteq> ''READ_RECEIPT''"

lemma plain_text_line: "plain_text l \<Longrightarrow> handle_line e self fd l s = Inr (handle_text e fd l s)"
  by (simp add: plain_text_def handle_line_def)





end
